theory Spec2Isabelle
  imports Complex_Main
begin

section \<open>Data model\<close>

text \<open>
  The engine of \<^verbatim>\<open>src/simulation.cpp\<close>. A C++ \<^verbatim>\<open>float\<close> that the engine computes is a
  real number, an infinity or a NaN, and the operations on it are the IEEE ones without
  rounding: a finite result is the exact one, so overflow to an infinity and loss of
  digits are outside the model, while the infinities and the NaN that a division by a
  zero total brings in are followed through every later operation. The only divisors
  that can be zero are a portfolio total and a count, and both are the positive zero, so
  the sign of a zero is not modelled. The inputs (weights, factors of the series,
  withdrawal rate, threshold) are finite and are real numbers.

  A \<^verbatim>\<open>size_t\<close> is modelled as a natural number. Sums and products agree with the code as
  long as they stay below \<open>2 ^ 64\<close>, which calendar years and horizons do; a subtraction
  that goes below zero wraps around, as unsigned arithmetic does.
\<close>

definition size_sub :: "nat \<Rightarrow> nat \<Rightarrow> nat" where
  "size_sub a b = (if b \<le> a then a - b else a + 2 ^ 64 - b)"

datatype float = Finite real | PInf | MInf | NaN

fun fneg :: "float \<Rightarrow> float" where
  "fneg (Finite a) = Finite (- a)"
| "fneg PInf = MInf"
| "fneg MInf = PInf"
| "fneg NaN = NaN"

fun fabs :: "float \<Rightarrow> float" where
  "fabs (Finite a) = Finite \<bar>a\<bar>"
| "fabs PInf = PInf"
| "fabs MInf = PInf"
| "fabs NaN = NaN"

fun fadd :: "float \<Rightarrow> float \<Rightarrow> float" where
  "fadd (Finite a) (Finite b) = Finite (a + b)"
| "fadd NaN y = NaN"
| "fadd x NaN = NaN"
| "fadd PInf MInf = NaN"
| "fadd MInf PInf = NaN"
| "fadd PInf y = PInf"
| "fadd x PInf = PInf"
| "fadd MInf y = MInf"
| "fadd x MInf = MInf"

definition fsub :: "float \<Rightarrow> float \<Rightarrow> float" where
  "fsub x y = fadd x (fneg y)"

fun fmul :: "float \<Rightarrow> float \<Rightarrow> float" where
  "fmul (Finite a) (Finite b) = Finite (a * b)"
| "fmul NaN y = NaN"
| "fmul x NaN = NaN"
| "fmul (Finite a) y = (if a = 0 then NaN else if 0 < a then y else fneg y)"
| "fmul x (Finite b) = (if b = 0 then NaN else if 0 < b then x else fneg x)"
| "fmul x y = (if x = y then PInf else MInf)"

fun fdiv :: "float \<Rightarrow> float \<Rightarrow> float" where
  "fdiv (Finite a) (Finite b) =
     (if b = 0 then (if a = 0 then NaN else if 0 < a then PInf else MInf)
      else Finite (a / b))"
| "fdiv NaN y = NaN"
| "fdiv x NaN = NaN"
| "fdiv (Finite a) y = Finite 0"
| "fdiv x (Finite b) = (if 0 \<le> b then x else fneg x)"
| "fdiv x y = NaN"

text \<open>The comparisons \<^verbatim>\<open><\<close> and \<^verbatim>\<open><=\<close>: false when either side is a NaN.\<close>

fun fless :: "float \<Rightarrow> float \<Rightarrow> bool" where
  "fless (Finite a) (Finite b) = (a < b)"
| "fless NaN y = False"
| "fless x NaN = False"
| "fless x MInf = False"
| "fless PInf y = False"
| "fless x y = True"

fun fle :: "float \<Rightarrow> float \<Rightarrow> bool" where
  "fle (Finite a) (Finite b) = (a \<le> b)"
| "fle NaN y = False"
| "fle x NaN = False"
| "fle MInf y = True"
| "fle x PInf = True"
| "fle x y = False"

text \<open>\<^verbatim>\<open>std::max(a, b)\<close> is \<^verbatim>\<open>(a < b) ? b : a\<close>.\<close>

definition fmax :: "float \<Rightarrow> float \<Rightarrow> float" where
  "fmax a b = (if fless a b then b else a)"

text \<open>\<^verbatim>\<open>std::accumulate(first, last, init)\<close> adds from the left.\<close>

definition accumulate :: "float list \<Rightarrow> float \<Rightarrow> float" where
  "accumulate xs init = foldl fadd init xs"

datatype Rebalancing = NONE | MONTHLY | YEARLY | THRESHOLD

text \<open>
  Modelled from the spec: the structs \<^verbatim>\<open>swr::allocation\<close>, \<^verbatim>\<open>swr::data\<close> and
  \<^verbatim>\<open>swr::results\<close> are declared in headers that are not part of the sources; the fields
  are the ones \<^verbatim>\<open>simulation.cpp\<close> reads and writes. A fresh \<^verbatim>\<open>results\<close> has both
  counters at zero.
\<close>

record allocation =
  asset :: string
  allocation :: real

record data =
  month :: nat
  year :: nat
  "value" :: real

record results =
  successes :: nat
  failures :: nat
  success_rate :: float
  tv_average :: float
  tv_minimum :: float
  tv_maximum :: float
  tv_median :: float

datatype error = OutOfRange

text \<open>
  \<open>OutOfRange\<close> stands for the undefined behaviour of reading a vector or dereferencing a
  cursor outside its sequence.
\<close>

section \<open>Rebalancing names\<close>

definition parse_rebalance :: "string \<Rightarrow> Rebalancing" where
  "parse_rebalance str =
     (if str = ''none'' then NONE
      else if str = ''monthly'' then MONTHLY
      else if str = ''yearly'' then YEARLY
      else THRESHOLD)"

text \<open>
  The stream inserter \<^verbatim>\<open>operator<<\<close>: the stream is the text written so far. The
  statement after the \<^verbatim>\<open>switch\<close> is reached by no enumerator.
\<close>

fun operator_lshift :: "string \<Rightarrow> Rebalancing \<Rightarrow> string" where
  "operator_lshift out NONE = out @ ''none''"
| "operator_lshift out MONTHLY = out @ ''monthly''"
| "operator_lshift out YEARLY = out @ ''yearly''"
| "operator_lshift out THRESHOLD = out @ ''threshold''"

section \<open>Constants and cursors\<close>

definition monthly_rebalancing_cost :: real where
  "monthly_rebalancing_cost = 0.005"

definition yearly_rebalancing_cost :: real where
  "yearly_rebalancing_cost = 0.01"

definition threshold_rebalancing_cost :: real where
  "threshold_rebalancing_cost = 0.01"

definition start_value :: real where
  "start_value = 1000"

text \<open>
  Modelled from the spec: \<^verbatim>\<open>swr::get_start\<close> is defined outside the sources. Given a
  series and a (year, month) pair it returns a cursor at the data point of that month; a
  cursor is the index of the point, and a month the series does not hold has none.
\<close>

fun get_start :: "data list \<Rightarrow> nat \<Rightarrow> nat \<Rightarrow> nat option" where
  "get_start [] y m = None"
| "get_start (d # ds) y m =
     (if year d = y \<and> month d = m then Some 0 else map_option Suc (get_start ds y m))"

definition vector_at :: "'a list \<Rightarrow> nat \<Rightarrow> error + 'a" where
  "vector_at xs i = (if i < length xs then Inr (xs ! i) else Inl OutOfRange)"

fun fold_err :: "('a \<Rightarrow> 's \<Rightarrow> error + 's) \<Rightarrow> 'a list \<Rightarrow> 's \<Rightarrow> error + 's" where
  "fold_err f [] s = Inr s"
| "fold_err f (x # xs) s = (case f x s of Inl e \<Rightarrow> Inl e | Inr s' \<Rightarrow> fold_err f xs s')"

section \<open>Rebalancing\<close>

definition pay_fees :: "real \<Rightarrow> float list \<Rightarrow> float list" where
  "pay_fees cost current_values =
     map (\<lambda>v. fmul v (Finite (1 - cost / 100))) current_values"

text \<open>
  The loop \<^verbatim>\<open>current_values[i] = total_value * (portfolio[i].allocation / 100.0f)\<close>
  over all \<open>number_of_assets\<close> indices: every entry of \<open>current_values\<close> is overwritten.
\<close>

definition set_to_target :: "allocation list \<Rightarrow> float \<Rightarrow> float list \<Rightarrow> float list" where
  "set_to_target portfolio total_value current_values =
     map (\<lambda>a. fmul total_value (Finite (allocation a / 100))) portfolio"

definition monthly_rebalance :: "allocation list \<Rightarrow> float list \<Rightarrow> float list" where
  "monthly_rebalance portfolio current_values =
     (let paid = pay_fees monthly_rebalancing_cost current_values;
          total_value = accumulate paid (Finite 0)
      in set_to_target portfolio total_value paid)"

definition yearly_rebalance :: "allocation list \<Rightarrow> float list \<Rightarrow> float list" where
  "yearly_rebalance portfolio current_values =
     (let paid = pay_fees yearly_rebalancing_cost current_values;
          total_value = accumulate paid (Finite 0)
      in set_to_target portfolio total_value paid)"

text \<open>
  The test \<^verbatim>\<open>std::abs(allocation / 100.0f - value / total_value) >= threshold\<close>.
\<close>

definition deviates :: "real \<Rightarrow> float \<Rightarrow> allocation \<times> float \<Rightarrow> bool" where
  "deviates threshold total_value av =
     fle (Finite threshold)
       (fabs (fsub (Finite (allocation (fst av) / 100)) (fdiv (snd av) total_value)))"

definition threshold_rebalance :: "allocation list \<Rightarrow> real \<Rightarrow> float list \<Rightarrow> float list" where
  "threshold_rebalance portfolio threshold current_values =
     (let total_value = accumulate current_values (Finite 0) in
      if list_ex (deviates threshold total_value) (zip portfolio current_values)
      then set_to_target portfolio total_value (pay_fees threshold_rebalancing_cost current_values)
      else current_values)"

section \<open>Withdrawals\<close>

text \<open>
  \<^verbatim>\<open>value = std::max(0.0f, value - (value / total_value) * amount)\<close> for every asset,
  with the total taken once before the loop.
\<close>

definition withdraw_value :: "real \<Rightarrow> float \<Rightarrow> float \<Rightarrow> float" where
  "withdraw_value amount total_value v =
     fmax (Finite 0) (fsub v (fmul (fdiv v total_value) (Finite amount)))"

definition withdraw :: "real \<Rightarrow> float list \<Rightarrow> float list" where
  "withdraw amount current_values =
     (let total_value = accumulate current_values (Finite 0)
      in map (withdraw_value amount total_value) current_values)"

section \<open>One trial\<close>

record trial_state =
  current_values :: "float list"
  returns :: "nat list"
  inflation :: nat
  withdrawal :: real

text \<open>
  The first loop of a trial: the start value of every asset and its cursor, at the month
  \<^verbatim>\<open>(current_month % 12) + 1\<close> of \<^verbatim>\<open>current_year\<close>.
\<close>

fun init_assets :: "allocation list \<Rightarrow> data list list \<Rightarrow> nat \<Rightarrow> nat \<Rightarrow> error + float list \<times> nat list" where
  "init_assets [] vals current_year current_month = Inr ([], [])"
| "init_assets (a # portfolio) [] current_year current_month = Inl OutOfRange"
| "init_assets (a # portfolio) (s # vals) current_year current_month =
     (case get_start s current_year ((current_month mod 12) + 1) of
        None \<Rightarrow> Inl OutOfRange
      | Some c \<Rightarrow>
          (case init_assets portfolio vals current_year current_month of
             Inl e \<Rightarrow> Inl e
           | Inr (vs, cs) \<Rightarrow> Inr (Finite (start_value * (allocation a / 100)) # vs, c # cs)))"

text \<open>
  The withdrawal of a trial is a product of finite inputs and is kept as a real number.
\<close>

definition trial_init ::
  "allocation list \<Rightarrow> data list \<Rightarrow> data list list \<Rightarrow> real \<Rightarrow> nat \<Rightarrow> nat \<Rightarrow> error + trial_state" where
  "trial_init portfolio inflation_data vals wr current_year current_month =
     (case init_assets portfolio vals current_year current_month of
        Inl e \<Rightarrow> Inl e
      | Inr (vs, cs) \<Rightarrow>
          (case get_start inflation_data current_year ((current_month mod 12) + 1) of
             None \<Rightarrow> Inl OutOfRange
           | Some c \<Rightarrow>
               Inr \<lparr>current_values = vs, returns = cs, inflation = c,
                    withdrawal = start_value * wr / 100\<rparr>))"

text \<open>
  \<^verbatim>\<open>current_values[i] *= returns[i]->value; ++returns[i]\<close> for every asset.
\<close>

fun apply_returns :: "data list list \<Rightarrow> float list \<Rightarrow> nat list \<Rightarrow> error + float list \<times> nat list" where
  "apply_returns vals [] cs = Inr ([], [])"
| "apply_returns (s # vals) (v # vs) (c # cs) =
     (case vector_at s c of
        Inl e \<Rightarrow> Inl e
      | Inr d \<Rightarrow>
          (case apply_returns vals vs cs of
             Inl e \<Rightarrow> Inl e
           | Inr (vs', cs') \<Rightarrow> Inr (fmul v (Finite (value d)) # vs', Suc c # cs')))"
| "apply_returns vals (v # vs) cs = Inl OutOfRange"

definition month_step ::
  "allocation list \<Rightarrow> data list \<Rightarrow> data list list \<Rightarrow> bool \<Rightarrow> Rebalancing \<Rightarrow> real \<Rightarrow>
   trial_state \<Rightarrow> error + trial_state" where
  "month_step portfolio inflation_data vals monthly_wr rebalance threshold st =
     (case apply_returns vals (current_values st) (returns st) of
        Inl e \<Rightarrow> Inl e
      | Inr (vs1, cs1) \<Rightarrow>
          (let vs2 = (if rebalance = MONTHLY then monthly_rebalance portfolio vs1 else vs1);
               vs3 = (if rebalance = THRESHOLD then threshold_rebalance portfolio threshold vs2
                      else vs2)
           in case vector_at inflation_data (inflation st) of
                Inl e \<Rightarrow> Inl e
              | Inr d \<Rightarrow>
                  (let w = withdrawal st * value d;
                       vs4 = (if monthly_wr then withdraw (w / 12) vs3 else vs3)
                   in Inr \<lparr>current_values = vs4, returns = cs1,
                           inflation = Suc (inflation st), withdrawal = w\<rparr>)))"

definition year_step ::
  "allocation list \<Rightarrow> bool \<Rightarrow> Rebalancing \<Rightarrow> trial_state \<Rightarrow> trial_state" where
  "year_step portfolio monthly_wr rebalance st =
     (let vs1 = (if rebalance = YEARLY then yearly_rebalance portfolio (current_values st)
                 else current_values st);
          vs2 = (if \<not> monthly_wr then withdraw (withdrawal st) vs1 else vs1)
      in st\<lparr>current_values := vs2\<rparr>)"

text \<open>
  The nested loop over \<open>y\<close> and \<open>m\<close>, as the sequence of its steps: \<open>Month y m\<close> is one
  run of the body of the inner loop, \<open>YearEnd y\<close> the statements that follow the inner
  loop in the body of the outer one.
\<close>

datatype event = is_Month: Month nat nat | YearEnd nat

definition trial_end_year :: "nat \<Rightarrow> nat \<Rightarrow> nat \<Rightarrow> nat" where
  "trial_end_year current_year current_month months =
     current_year + size_sub (current_month - 1 + months) 1 div 12"

definition trial_end_month :: "nat \<Rightarrow> nat \<Rightarrow> nat" where
  "trial_end_month current_month months =
     1 + ((current_month - 1) + size_sub months 1 mod 12) mod 12"

definition year_events :: "nat \<Rightarrow> nat \<Rightarrow> nat \<Rightarrow> nat \<Rightarrow> nat \<Rightarrow> event list" where
  "year_events current_year current_month end_year end_month y =
     map (Month y)
       [(if y = current_year then current_month else 1) ..<
        Suc (if y = end_year then end_month else 12)]
     @ [YearEnd y]"

definition trial_events :: "nat \<Rightarrow> nat \<Rightarrow> nat \<Rightarrow> event list" where
  "trial_events current_year current_month months =
     (let end_year = trial_end_year current_year current_month months;
          end_month = trial_end_month current_month months
      in concat (map (year_events current_year current_month end_year end_month)
                   [current_year ..< Suc end_year]))"

fun step ::
  "allocation list \<Rightarrow> data list \<Rightarrow> data list list \<Rightarrow> bool \<Rightarrow> Rebalancing \<Rightarrow> real \<Rightarrow>
   event \<Rightarrow> trial_state \<Rightarrow> error + trial_state" where
  "step portfolio inflation_data vals monthly_wr rebalance threshold (Month y m) st =
     month_step portfolio inflation_data vals monthly_wr rebalance threshold st"
| "step portfolio inflation_data vals monthly_wr rebalance threshold (YearEnd y) st =
     Inr (year_step portfolio monthly_wr rebalance st)"

definition trial ::
  "allocation list \<Rightarrow> data list \<Rightarrow> data list list \<Rightarrow> nat \<Rightarrow> real \<Rightarrow> bool \<Rightarrow> Rebalancing \<Rightarrow>
   real \<Rightarrow> nat \<Rightarrow> nat \<Rightarrow> error + float" where
  "trial portfolio inflation_data vals years wr monthly_wr rebalance threshold
     current_year current_month =
     (case trial_init portfolio inflation_data vals wr current_year current_month of
        Inl e \<Rightarrow> Inl e
      | Inr st \<Rightarrow>
          (case fold_err (step portfolio inflation_data vals monthly_wr rebalance threshold)
                  (trial_events current_year current_month (years * 12)) st of
             Inl e \<Rightarrow> Inl e
           | Inr st' \<Rightarrow> Inr (accumulate (current_values st') (Finite 0))))"

section \<open>Aggregation and the simulation\<close>

text \<open>
  \<^verbatim>\<open>std::sort\<close> with the comparison \<^verbatim>\<open><\<close>: the values in ascending order. With a NaN
  among them the comparison is no ordering and the standard leaves the result open; the
  model then still orders by the same comparison.
\<close>

fun insert_sorted :: "float \<Rightarrow> float list \<Rightarrow> float list" where
  "insert_sorted x [] = [x]"
| "insert_sorted x (y # ys) = (if fless y x then y # insert_sorted x ys else x # y # ys)"

definition std_sort :: "float list \<Rightarrow> float list" where
  "std_sort xs = foldr insert_sorted xs []"

definition compute_terminal_values :: "results \<Rightarrow> float list \<Rightarrow> error + results" where
  "compute_terminal_values res terminal_values =
     (let sorted_values = std_sort terminal_values in
      case vector_at sorted_values (length sorted_values div 2 + 1) of
        Inl e \<Rightarrow> Inl e
      | Inr median \<Rightarrow>
          (if sorted_values = [] then Inl OutOfRange
           else Inr (res\<lparr>tv_median := median,
                         tv_minimum := hd sorted_values,
                         tv_maximum := last sorted_values,
                         tv_average := fdiv (accumulate sorted_values (Finite 0))
                                         (Finite (real (length sorted_values)))\<rparr>)))"

definition new_results :: results where
  "new_results = \<lparr>successes = 0, failures = 0, success_rate = Finite 0, tv_average = Finite 0,
                  tv_minimum = Finite 0, tv_maximum = Finite 0, tv_median = Finite 0\<rparr>"

definition trial_starts :: "nat \<Rightarrow> nat \<Rightarrow> nat \<Rightarrow> (nat \<times> nat) list" where
  "trial_starts years start_year end_year =
     concat (map (\<lambda>current_year. map (Pair current_year) [1 ..< 13])
               [start_year ..< Suc (size_sub end_year years)])"

definition record_trial ::
  "allocation list \<Rightarrow> data list \<Rightarrow> data list list \<Rightarrow> nat \<Rightarrow> real \<Rightarrow> bool \<Rightarrow> Rebalancing \<Rightarrow>
   real \<Rightarrow> nat \<times> nat \<Rightarrow> results \<times> float list \<Rightarrow> error + results \<times> float list" where
  "record_trial portfolio inflation_data vals years wr monthly_wr rebalance threshold start acc =
     (case trial portfolio inflation_data vals years wr monthly_wr rebalance threshold
             (fst start) (snd start) of
        Inl e \<Rightarrow> Inl e
      | Inr final_value \<Rightarrow>
          Inr (if fless (Finite 0) final_value
               then (fst acc)\<lparr>successes := successes (fst acc) + 1\<rparr>
               else (fst acc)\<lparr>failures := failures (fst acc) + 1\<rparr>,
               snd acc @ [final_value]))"

text \<open>
  The process-wide counter \<^verbatim>\<open>simulations\<close> is the first argument and, updated, the second
  component of the result.
\<close>

definition simulation ::
  "nat \<Rightarrow> allocation list \<Rightarrow> data list \<Rightarrow> data list list \<Rightarrow> nat \<Rightarrow> real \<Rightarrow> nat \<Rightarrow> nat \<Rightarrow> bool \<Rightarrow>
   Rebalancing \<Rightarrow> real \<Rightarrow> error + results \<times> nat" where
  "simulation simulations portfolio inflation_data vals years wr start_year end_year
     monthly_wr rebalance threshold =
     (case fold_err
             (record_trial portfolio inflation_data vals years wr monthly_wr rebalance threshold)
             (trial_starts years start_year end_year) (new_results, []) of
        Inl e \<Rightarrow> Inl e
      | Inr (res, terminal_values) \<Rightarrow>
          (case compute_terminal_values
                  (res\<lparr>success_rate :=
                         fmul (Finite 100)
                           (fdiv (Finite (real (successes res)))
                              (Finite (real (successes res + failures res))))\<rparr>)
                  terminal_values of
             Inl e \<Rightarrow> Inl e
           | Inr res' \<Rightarrow> Inr (res', simulations + length terminal_values)))"

definition simulations_ran :: "nat \<Rightarrow> nat" where
  "simulations_ran simulations = simulations"

section \<open>Preconditions and sample data\<close>

text \<open>
  The preconditions of the engine, as predicates on its inputs. A series is read by
  position, so what matters is that it holds one point per calendar month, in order and
  without gaps: \<open>month_index\<close> numbers the calendar months, and \<open>covers s lo hi\<close> says that
  \<open>s\<close> starts no later than January of year \<open>lo\<close> and reaches at least November of year
  \<open>hi\<close>.
\<close>

definition month_index :: "data \<Rightarrow> nat" where
  "month_index d = 12 * year d + (month d - 1)"

definition covers :: "data list \<Rightarrow> nat \<Rightarrow> nat \<Rightarrow> bool" where
  "covers s lo hi =
     (s \<noteq> []
      \<and> list_all (\<lambda>d. 1 \<le> month d \<and> month d \<le> 12) s
      \<and> map month_index s = [month_index (hd s) ..< month_index (hd s) + length s]
      \<and> month_index (hd s) \<le> 12 * lo
      \<and> 12 * hi + 11 \<le> month_index (hd s) + length s)"

text \<open>
  \<open>not_negative v\<close> is the comparison \<^verbatim>\<open>0.0f <= v\<close>: \<open>v\<close> is a real number that is at least
  zero, or plus infinity.
\<close>

definition not_negative :: "float \<Rightarrow> bool" where
  "not_negative v = fle (Finite 0) v"

text \<open>
  What holds of an asset's value throughout a trial when weights and return factors are
  not negative: it is a real number that is not negative, and it is zero when the asset's
  weight is zero. The cursors of a state leave room for \<open>r\<close> more months when
  \<open>cursors_ok\<close> holds.
\<close>

definition weight_ok :: "allocation \<Rightarrow> real \<Rightarrow> bool" where
  "weight_ok a x = (0 \<le> x \<and> (allocation a = 0 \<longrightarrow> x = 0))"

definition asset_ok :: "allocation \<Rightarrow> float \<Rightarrow> bool" where
  "asset_ok a v = (case v of Finite x \<Rightarrow> weight_ok a x | _ \<Rightarrow> False)"

definition cursors_ok ::
  "allocation list \<Rightarrow> data list \<Rightarrow> data list list \<Rightarrow> nat \<Rightarrow> trial_state \<Rightarrow> bool" where
  "cursors_ok portfolio inflation_data vals r st =
     (length (current_values st) = length portfolio
      \<and> list_all2 (\<lambda>s c. c + r \<le> length s) vals (returns st)
      \<and> inflation st + r \<le> length inflation_data)"

text \<open>The calendar month \<open>k\<close> months after month \<open>cm\<close> of year \<open>cy\<close>, as a loop step.\<close>

definition month_at :: "nat \<Rightarrow> nat \<Rightarrow> nat \<Rightarrow> event" where
  "month_at cy cm k = Month (cy + (cm - 1 + k) div 12) (Suc ((cm - 1 + k) mod 12))"

text \<open>
  Sample data: \<open>n\<close> monthly points from January of year \<open>y0\<close> on, the \<open>k\<close>-th with
  value \<open>f k\<close>; a portfolio of one asset, one of two assets, one whose weights sum
  to 200, and one with a negative weight.
\<close>

definition series_from :: "nat \<Rightarrow> (nat \<Rightarrow> real) \<Rightarrow> nat \<Rightarrow> data list" where
  "series_from y0 f n =
     map (\<lambda>k. \<lparr>month = Suc (k mod 12), year = y0 + k div 12, value = f k\<rparr>) [0 ..< n]"

definition one_asset :: "allocation list" where
  "one_asset = [\<lparr>asset = ''stocks'', allocation = 100\<rparr>]"

definition two_assets :: "allocation list" where
  "two_assets = [\<lparr>asset = ''stocks'', allocation = 60\<rparr>, \<lparr>asset = ''bonds'', allocation = 40\<rparr>]"

definition twice_full :: "allocation list" where
  "twice_full = [\<lparr>asset = ''stocks'', allocation = 100\<rparr>, \<lparr>asset = ''bonds'', allocation = 100\<rparr>]"

definition short_bonds :: "allocation list" where
  "short_bonds = [\<lparr>asset = ''stocks'', allocation = 100\<rparr>, \<lparr>asset = ''bonds'', allocation = - 300\<rparr>]"

section \<open>Properties: arithmetic without rounding\<close>

lemma fadd_commute: "fadd x y = fadd y x"
  by (cases x; cases y) simp_all

lemma fadd_assoc: "fadd (fadd x y) z = fadd x (fadd y z)"
  by (cases x; cases y; cases z) simp_all

lemma fadd_left_commute: "fadd x (fadd y z) = fadd y (fadd x z)"
  by (cases x; cases y; cases z) simp_all

lemma fmul_fadd_distrib:
  "0 < c \<Longrightarrow> fadd (fmul x (Finite c)) (fmul y (Finite c)) = fmul (fadd x y) (Finite c)"
  by (cases x; cases y) (simp_all add: distrib_right)

lemma accumulate_Nil [simp]: "accumulate [] init = init"
  by (simp add: accumulate_def)

lemma accumulate_Cons [simp]: "accumulate (x # xs) init = accumulate xs (fadd init x)"
  by (simp add: accumulate_def)

lemma accumulate_Finite: "accumulate (map Finite xs) (Finite a) = Finite (a + sum_list xs)"
  by (induction xs arbitrary: a) (simp_all add: add.assoc)

lemma accumulate_scaled:
  "0 < c \<Longrightarrow> accumulate (map (\<lambda>v. fmul v (Finite c)) vs) (fmul init (Finite c))
     = fmul (accumulate vs init) (Finite c)"
  by (induction vs arbitrary: init) (simp_all add: fmul_fadd_distrib)

lemma accumulate_fadd: "accumulate xs (fadd init x) = fadd (accumulate xs init) x"
proof (induction xs arbitrary: init)
  case Nil
  then show ?case by simp
next
  case (Cons y ys)
  have "fadd (fadd init x) y = fadd (fadd init y) x"
    by (simp add: fadd_assoc fadd_commute [of x y])
  then show ?case by (simp add: Cons.IH)
qed

lemma not_negative_iff: "not_negative v \<longleftrightarrow> v = PInf \<or> (\<exists>x. v = Finite x \<and> 0 \<le> x)"
  by (cases v) (simp_all add: not_negative_def)

lemma not_negative_fmax: "not_negative (fmax (Finite 0) x)"
  by (cases x) (simp_all add: fmax_def not_negative_def)

lemma not_negative_fadd: "not_negative x \<Longrightarrow> not_negative y \<Longrightarrow> not_negative (fadd x y)"
  by (cases x; cases y) (simp_all add: not_negative_def)

lemma not_negative_accumulate:
  "list_all not_negative xs \<Longrightarrow> not_negative init \<Longrightarrow> not_negative (accumulate xs init)"
  by (induction xs arbitrary: init) (simp_all add: not_negative_fadd)

section \<open>Properties: names, fees and aggregation\<close>

text \<open>
  C10. Writing a \<open>Rebalancing\<close> value appends one of the four tokens, never the fallback
  text, and \<open>parse_rebalance\<close> reads the token back as the same value.
\<close>

theorem rebalancing_roundtrip:
  "parse_rebalance (drop (length out) (operator_lshift out r)) = r
   \<and> drop (length out) (operator_lshift out r) \<in> {''none'', ''monthly'', ''yearly'', ''threshold''}
   \<and> drop (length out) (operator_lshift out r) \<noteq> ''Unknown rebalancing''"
  by (cases r) (simp_all add: parse_rebalance_def)

lemma accumulate_pay_fees:
  assumes "cost < 100"
  shows "accumulate (pay_fees cost vs) (Finite 0) =
         fmul (accumulate vs (Finite 0)) (Finite (1 - cost / 100))"
proof -
  have c: "0 < 1 - cost / 100" using assms by simp
  have "fmul (Finite 0) (Finite (1 - cost / 100)) = Finite 0" by simp
  with accumulate_scaled [OF c, of vs "Finite 0"] show ?thesis by (simp add: pay_fees_def)
qed

text \<open>
  C5, as stated, fails: the cost constants are percentages and are divided by 100 before
  use, so a monthly event takes 0.005 percent of 1000, which is 0.05 and not 5, and a
  yearly event takes 0.01 percent, which is 0.1 and not 10.
\<close>

theorem rebalancing_cost_factor_counterexample:
  "pay_fees monthly_rebalancing_cost [Finite 1000] = [Finite 999.95]
   \<and> pay_fees monthly_rebalancing_cost [Finite 1000] \<noteq> [Finite (1000 * (1 - 0.005))]
   \<and> pay_fees yearly_rebalancing_cost [Finite 1000] = [Finite 999.9]
   \<and> pay_fees yearly_rebalancing_cost [Finite 1000] \<noteq> [Finite (1000 * (1 - 0.01))]"
  by (simp add: pay_fees_def monthly_rebalancing_cost_def yearly_rebalancing_cost_def)

text \<open>
  C5, amended. The fee loop multiplies every asset value by \<open>1 - 0.00005\<close> in a monthly
  event and by \<open>1 - 0.0001\<close> in a yearly or threshold event; a monthly or yearly event
  then sets every asset to its target share of the total so reduced. For real values the
  products are the products of real numbers.
\<close>

theorem rebalancing_cost_factor:
  "pay_fees monthly_rebalancing_cost vs = map (\<lambda>v. fmul v (Finite (1 - 0.00005))) vs
   \<and> pay_fees yearly_rebalancing_cost vs = map (\<lambda>v. fmul v (Finite (1 - 0.0001))) vs
   \<and> pay_fees threshold_rebalancing_cost vs = map (\<lambda>v. fmul v (Finite (1 - 0.0001))) vs
   \<and> monthly_rebalance portfolio vs =
       map (\<lambda>a. fmul (fmul (accumulate vs (Finite 0)) (Finite (1 - 0.00005)))
                  (Finite (allocation a / 100))) portfolio
   \<and> yearly_rebalance portfolio vs =
       map (\<lambda>a. fmul (fmul (accumulate vs (Finite 0)) (Finite (1 - 0.0001)))
                  (Finite (allocation a / 100))) portfolio
   \<and> pay_fees monthly_rebalancing_cost (map Finite xs) = map (\<lambda>x. Finite (x * (1 - 0.00005))) xs
   \<and> pay_fees yearly_rebalancing_cost (map Finite xs) = map (\<lambda>x. Finite (x * (1 - 0.0001))) xs
   \<and> pay_fees threshold_rebalancing_cost (map Finite xs) = map (\<lambda>x. Finite (x * (1 - 0.0001))) xs
   \<and> monthly_rebalance portfolio (map Finite xs) =
       map (\<lambda>a. Finite ((sum_list xs * (1 - 0.00005)) * (allocation a / 100))) portfolio
   \<and> yearly_rebalance portfolio (map Finite xs) =
       map (\<lambda>a. Finite ((sum_list xs * (1 - 0.0001)) * (allocation a / 100))) portfolio"
proof -
  have m: "monthly_rebalancing_cost < 100" "1 - monthly_rebalancing_cost / 100 = 1 - 0.00005"
    by (simp_all add: monthly_rebalancing_cost_def)
  have y: "yearly_rebalancing_cost < 100" "1 - yearly_rebalancing_cost / 100 = 1 - 0.0001"
    by (simp_all add: yearly_rebalancing_cost_def)
  have t: "1 - threshold_rebalancing_cost / 100 = 1 - 0.0001"
    by (simp add: threshold_rebalancing_cost_def)
  have a: "pay_fees monthly_rebalancing_cost ws = map (\<lambda>v. fmul v (Finite (1 - 0.00005))) ws" for ws
    unfolding pay_fees_def m(2) ..
  have b: "pay_fees yearly_rebalancing_cost ws = map (\<lambda>v. fmul v (Finite (1 - 0.0001))) ws" for ws
    unfolding pay_fees_def y(2) ..
  have c: "pay_fees threshold_rebalancing_cost ws = map (\<lambda>v. fmul v (Finite (1 - 0.0001))) ws" for ws
    unfolding pay_fees_def t ..
  have d: "monthly_rebalance portfolio ws =
       map (\<lambda>a. fmul (fmul (accumulate ws (Finite 0)) (Finite (1 - 0.00005)))
                  (Finite (allocation a / 100))) portfolio" for ws
    unfolding monthly_rebalance_def Let_def set_to_target_def accumulate_pay_fees [OF m(1)] m(2) ..
  have e: "yearly_rebalance portfolio ws =
       map (\<lambda>a. fmul (fmul (accumulate ws (Finite 0)) (Finite (1 - 0.0001)))
                  (Finite (allocation a / 100))) portfolio" for ws
    unfolding yearly_rebalance_def Let_def set_to_target_def accumulate_pay_fees [OF y(1)] y(2) ..
  have f: "accumulate (map Finite xs) (Finite 0) = Finite (sum_list xs)"
    by (simp add: accumulate_Finite)
  show ?thesis
    unfolding a b c d e f by (simp add: o_def)
qed

text \<open>
  A threshold event computes its total before the fee loop, so the targets it then writes
  carry no fee.
\<close>

lemma threshold_rebalance_triggered:
  "list_ex (deviates threshold (accumulate vs (Finite 0))) (zip portfolio vs) \<Longrightarrow>
   threshold_rebalance portfolio threshold vs =
     map (\<lambda>a. fmul (accumulate vs (Finite 0)) (Finite (allocation a / 100))) portfolio"
  by (simp add: threshold_rebalance_def set_to_target_def)

lemma median_index_bound: "(n div 2 + 1 < n) = (3 \<le> (n::nat))"
  by presburger

lemma length_insert_sorted [simp]: "length (insert_sorted x xs) = Suc (length xs)"
  by (induction xs) simp_all

lemma length_std_sort [simp]: "length (std_sort xs) = length xs"
  by (induction xs) (simp_all add: std_sort_def)

lemma fadd_swap: "fadd (fadd z x) y = fadd (fadd z y) x"
  by (simp add: fadd_assoc fadd_commute [of x y])

lemma accumulate_insert_sorted:
  "accumulate (insert_sorted x xs) init = fadd (accumulate xs init) x"
  by (induction xs arbitrary: init) (simp_all add: accumulate_fadd fadd_swap)

lemma accumulate_std_sort: "accumulate (std_sort xs) init = accumulate xs init"
proof (induction xs arbitrary: init)
  case Nil
  then show ?case by (simp add: std_sort_def)
next
  case (Cons x xs)
  have "accumulate (std_sort (x # xs)) init = fadd (accumulate (std_sort xs) init) x"
    by (simp add: std_sort_def accumulate_insert_sorted)
  also have "\<dots> = accumulate (x # xs) init"
    by (simp add: Cons.IH accumulate_fadd)
  finally show ?case .
qed

lemma insert_sorted_Finite:
  "insert_sorted (Finite x) (map Finite xs) = map Finite (insort x xs)"
  by (induction xs) auto

lemma std_sort_Finite: "std_sort (map Finite xs) = map Finite (sort xs)"
  by (induction xs) (simp_all add: std_sort_def insert_sorted_Finite)

lemma compute_terminal_values_three:
  assumes "3 \<le> length tvs"
  shows "\<exists>res'. compute_terminal_values res tvs = Inr res'
           \<and> successes res' = successes res \<and> failures res' = failures res"
proof -
  have "std_sort tvs \<noteq> []"
    using assms by (metis length_0_conv length_std_sort not_numeral_le_zero)
  then show ?thesis
    using assms by (simp add: compute_terminal_values_def vector_at_def Let_def median_index_bound)
qed

text \<open>
  C6, as stated, fails for two terminal values: the median index is \<open>2 div 2 + 1 = 2\<close>,
  one past the last element.
\<close>

theorem compute_terminal_values_counterexample:
  "2 \<le> length [Finite 1, Finite 2]
   \<and> compute_terminal_values new_results [Finite 1, Finite 2] = Inl OutOfRange"
  by (simp add: compute_terminal_values_def vector_at_def std_sort_def)

text \<open>
  C6, amended. \<open>compute_terminal_values\<close> reads outside the sorted sequence exactly when
  there are at most two terminal values. From three values on it returns the element at
  index \<open>n div 2 + 1\<close> of the sorted sequence as the median, its first and last elements as
  minimum and maximum, and the arithmetic mean as average. Real values are sorted in
  ascending order.
\<close>

theorem compute_terminal_values_bounds:
  "((\<exists>e. compute_terminal_values res tvs = Inl e) \<longleftrightarrow> length tvs \<le> 2)
   \<and> (3 \<le> length tvs \<longrightarrow>
        compute_terminal_values res tvs =
          Inr (res\<lparr>tv_median := std_sort tvs ! (length tvs div 2 + 1),
                   tv_minimum := std_sort tvs ! 0,
                   tv_maximum := std_sort tvs ! (length tvs - 1),
                   tv_average := fdiv (accumulate tvs (Finite 0)) (Finite (real (length tvs)))\<rparr>))
   \<and> std_sort (map Finite xs) = map Finite (sort xs)
   \<and> accumulate (map Finite xs) (Finite 0) = Finite (sum_list xs)"
proof -
  have ne: "3 \<le> length tvs \<Longrightarrow> std_sort tvs \<noteq> []"
    by (metis length_0_conv length_std_sort not_numeral_le_zero)
  have "((\<exists>e. compute_terminal_values res tvs = Inl e) \<longleftrightarrow> length tvs \<le> 2)
   \<and> (3 \<le> length tvs \<longrightarrow>
        compute_terminal_values res tvs =
          Inr (res\<lparr>tv_median := std_sort tvs ! (length tvs div 2 + 1),
                   tv_minimum := std_sort tvs ! 0,
                   tv_maximum := std_sort tvs ! (length tvs - 1),
                   tv_average := fdiv (accumulate tvs (Finite 0)) (Finite (real (length tvs)))\<rparr>))"
    using ne
    by (auto simp: compute_terminal_values_def vector_at_def Let_def median_index_bound
        accumulate_std_sort hd_conv_nth last_conv_nth)
  then show ?thesis by (simp add: std_sort_Finite accumulate_Finite)
qed

theorem compute_terminal_values_bounds_witness:
  "compute_terminal_values new_results [Finite 3, Finite 1, Finite 2] =
     Inr (new_results\<lparr>tv_median := Finite 3, tv_minimum := Finite 1, tv_maximum := Finite 3,
                      tv_average := Finite 2\<rparr>)"
  using compute_terminal_values_bounds [of new_results "[Finite 3, Finite 1, Finite 2]" "[]"]
  by (simp add: std_sort_def)

section \<open>Properties: the loop over the months of a trial\<close>

lemma size_sub_le [simp]: "b \<le> a \<Longrightarrow> size_sub a b = a - b"
  by (simp add: size_sub_def)

lemma filter_month_year_events:
  "filter is_Month (year_events cy cm ey em y) =
     map (Month y) [(if y = cy then cm else 1) ..< Suc (if y = ey then em else 12)]"
  by (simp add: year_events_def filter_map o_def)

lemma filter_year_end_year_events:
  "filter (\<lambda>e. \<not> is_Month e) (year_events cy cm ey em y) = [YearEnd y]"
  by (simp add: year_events_def filter_map o_def)

lemma months_nested:
  "1 \<le> cm \<Longrightarrow> cm \<le> 12 \<Longrightarrow> 1 \<le> em \<Longrightarrow> em \<le> 12 \<Longrightarrow> cy + d = ey \<Longrightarrow> (d = 0 \<longrightarrow> cm \<le> Suc em) \<Longrightarrow>
   concat (map (\<lambda>y. map (Month y) [(if y = cy then cm else 1) ..< Suc (if y = ey then em else 12)])
     [cy ..< Suc ey]) =
   map (month_at cy cm) [0 ..< 12 * d + em + 1 - cm]"
proof (induction d arbitrary: cy cm)
  case 0
  then have "cy = ey" by simp
  have "map (Month ey) [cm ..< Suc em] = map (month_at ey cm) [0 ..< Suc em - cm]"
  proof (rule nth_equalityI)
    show "length (map (Month ey) [cm ..< Suc em]) = length (map (month_at ey cm) [0 ..< Suc em - cm])"
      by (simp del: upt_Suc)
  next
    fix i assume "i < length (map (Month ey) [cm ..< Suc em])"
    then have i: "i < Suc em - cm" by (simp del: upt_Suc)
    with 0 have "cm - 1 + i < 12" by arith
    with i 0 show "map (Month ey) [cm ..< Suc em] ! i = map (month_at ey cm) [0 ..< Suc em - cm] ! i"
      by (simp add: month_at_def del: upt_Suc)
  qed
  moreover have "[ey ..< Suc ey] = [ey]" by simp
  ultimately show ?case using \<open>cy = ey\<close> by (simp del: upt_Suc)
next
  case (Suc d)
  then have lt: "cy < ey" and ey: "Suc cy + d = ey" by simp_all
  have split: "[cy ..< Suc ey] = cy # [Suc cy ..< Suc ey]"
    using lt by (simp add: upt_conv_Cons)
  have rest: "map (\<lambda>y. map (Month y) [(if y = cy then cm else 1) ..< Suc (if y = ey then em else 12)])
                [Suc cy ..< Suc ey]
            = map (\<lambda>y. map (Month y) [(if y = Suc cy then 1 else 1) ..< Suc (if y = ey then em else 12)])
                [Suc cy ..< Suc ey]"
    by (rule map_cong) auto
  have ih: "concat (map (\<lambda>y. map (Month y) [(if y = Suc cy then 1 else 1) ..< Suc (if y = ey then em else 12)])
                [Suc cy ..< Suc ey]) = map (month_at (Suc cy) 1) [0 ..< 12 * d + em + 1 - 1]"
    using Suc.IH [of 1 "Suc cy"] Suc.prems ey by (simp del: upt_Suc)
  have first: "map (Month cy) [cm ..< Suc 12] = map (month_at cy cm) [0 ..< 13 - cm]"
  proof (rule nth_equalityI)
    show "length (map (Month cy) [cm ..< Suc 12]) = length (map (month_at cy cm) [0 ..< 13 - cm])"
      by (simp del: upt_Suc)
  next
    fix i assume "i < length (map (Month cy) [cm ..< Suc 12])"
    then have i: "i < 13 - cm" by (simp del: upt_Suc)
    with Suc.prems have "cm - 1 + i < 12" by arith
    with i Suc.prems show "map (Month cy) [cm ..< Suc 12] ! i = map (month_at cy cm) [0 ..< 13 - cm] ! i"
      by (simp add: month_at_def del: upt_Suc)
  qed
  have second: "map (month_at (Suc cy) 1) [0 ..< 12 * d + em] =
                map (month_at cy cm) [13 - cm ..< 12 * Suc d + em + 1 - cm]"
  proof (rule nth_equalityI)
    show "length (map (month_at (Suc cy) 1) [0 ..< 12 * d + em]) =
          length (map (month_at cy cm) [13 - cm ..< 12 * Suc d + em + 1 - cm])"
      using Suc.prems by (simp del: upt_Suc)
  next
    fix i assume "i < length (map (month_at (Suc cy) 1) [0 ..< 12 * d + em])"
    then have i: "i < 12 * d + em" by (simp del: upt_Suc)
    have "cm - 1 + (13 - cm + i) = 12 + i" using Suc.prems by arith
    then show "map (month_at (Suc cy) 1) [0 ..< 12 * d + em] ! i =
          map (month_at cy cm) [13 - cm ..< 12 * Suc d + em + 1 - cm] ! i"
      using i Suc.prems by (simp add: month_at_def del: upt_Suc)
  qed
  have app: "[0 ..< 12 * Suc d + em + 1 - cm] = [0 ..< 13 - cm] @ [13 - cm ..< 12 * Suc d + em + 1 - cm]"
  proof -
    have "12 * Suc d + em + 1 - cm = (13 - cm) + (12 * d + em)"
      using \<open>cm \<le> 12\<close> by simp
    show ?thesis unfolding \<open>12 * Suc d + em + 1 - cm = (13 - cm) + (12 * d + em)\<close>
      by (rule upt_add_eq_append [OF le0])
  qed
  let ?F = "\<lambda>y. map (Month y) [(if y = cy then cm else 1) ..< Suc (if y = ey then em else 12)]"
  have "concat (map ?F [cy ..< Suc ey]) = ?F cy @ concat (map ?F [Suc cy ..< Suc ey])"
    by (simp only: split list.map concat.simps)
  also have "?F cy = map (month_at cy cm) [0 ..< 13 - cm]"
    using lt first by (simp del: upt_Suc)
  also have "concat (map ?F [Suc cy ..< Suc ey]) = map (month_at (Suc cy) 1) [0 ..< 12 * d + em]"
    using ih by (simp only: rest) simp
  also have "\<dots> = map (month_at cy cm) [13 - cm ..< 12 * Suc d + em + 1 - cm]"
    by (rule second)
  finally show ?case
    by (simp only: app map_append)
qed

lemma filter_concat_map: "filter P (concat (map f xs)) = concat (map (\<lambda>x. filter P (f x)) xs)"
  by (induction xs) simp_all

lemma trial_end_arith:
  assumes "1 \<le> years" "1 \<le> cm" "cm \<le> 12"
  shows "12 * (size_sub (cm - 1 + years * 12) 1 div 12)
           + trial_end_month cm (years * 12) + 1 - cm = years * 12"
    and "1 \<le> trial_end_month cm (years * 12)" and "trial_end_month cm (years * 12) \<le> 12"
    and "size_sub (cm - 1 + years * 12) 1 div 12 = 0 \<longrightarrow> cm \<le> Suc (trial_end_month cm (years * 12))"
proof -
  let ?t = "cm - 1 + years * 12 - 1"
  have s1: "size_sub (cm - 1 + years * 12) 1 = ?t" using assms by simp
  have s2: "size_sub (years * 12) 1 = years * 12 - 1" using assms by simp
  have em: "trial_end_month cm (years * 12) = 1 + ?t mod 12"
  proof -
    have "((cm - 1) + (years * 12 - 1) mod 12) mod 12 = ((cm - 1) + (years * 12 - 1)) mod 12"
      by (simp add: mod_add_right_eq)
    moreover have "(cm - 1) + (years * 12 - 1) = ?t" using assms by simp
    ultimately have "((cm - 1) + (years * 12 - 1) mod 12) mod 12 = ?t mod 12" by simp
    then show ?thesis unfolding trial_end_month_def s2 by (rule arg_cong)
  qed
  have dm: "12 * (?t div 12) + ?t mod 12 = ?t" by simp
  show "12 * (size_sub (cm - 1 + years * 12) 1 div 12)
           + trial_end_month cm (years * 12) + 1 - cm = years * 12"
    unfolding s1 em using dm assms by linarith
  show "1 \<le> trial_end_month cm (years * 12)" by (simp add: em)
  show "trial_end_month cm (years * 12) \<le> 12" unfolding em
    by (simp add: Suc_leI)
  show "size_sub (cm - 1 + years * 12) 1 div 12 = 0 \<longrightarrow> cm \<le> Suc (trial_end_month cm (years * 12))"
    unfolding s1 em using assms by (auto simp: div_eq_0_iff)
qed

lemma trial_months_eq:
  assumes "1 \<le> years" "1 \<le> current_month" "current_month \<le> 12"
  shows "filter is_Month (trial_events current_year current_month (years * 12)) =
           map (month_at current_year current_month) [0 ..< years * 12]"
proof -
  let ?d = "size_sub (current_month - 1 + years * 12) 1 div 12"
  let ?em = "trial_end_month current_month (years * 12)"
  note a = trial_end_arith [OF assms]
  have "filter is_Month (trial_events current_year current_month (years * 12)) =
        concat (map (\<lambda>y. map (Month y) [(if y = current_year then current_month else 1) ..<
                 Suc (if y = current_year + ?d then ?em else 12)]) [current_year ..< Suc (current_year + ?d)])"
    by (simp only: trial_events_def Let_def trial_end_year_def filter_concat_map filter_month_year_events)
  also have "\<dots> = map (month_at current_year current_month) [0 ..< 12 * ?d + ?em + 1 - current_month]"
    by (rule months_nested [OF assms(2,3) a(2,3) refl a(4)])
  also have "\<dots> = map (month_at current_year current_month) [0 ..< years * 12]"
    by (simp only: a(1))
  finally show ?thesis .
qed

lemma trial_months_length:
  assumes "1 \<le> years" "1 \<le> cm" "cm \<le> 12"
  shows "length (filter is_Month (trial_events cy cm (years * 12))) = years * 12"
  by (simp add: trial_months_eq [OF assms] del: upt_Suc)

text \<open>
  C4. For a horizon of at least one year and a start month between 1 and 12, the nested
  loop runs its monthly body exactly \<open>years * 12\<close> times, and the \<open>k\<close>-th run is at the
  calendar month \<open>k\<close> months after the start month: the month of the year wraps from 12
  to 1 and the year goes up by one.
\<close>

theorem trial_months:
  assumes "1 \<le> years" "1 \<le> current_month" "current_month \<le> 12"
  shows "filter is_Month (trial_events current_year current_month (years * 12)) =
           map (\<lambda>k. Month (current_year + (current_month - 1 + k) div 12)
                         (Suc ((current_month - 1 + k) mod 12))) [0 ..< years * 12]
         \<and> length (filter is_Month (trial_events current_year current_month (years * 12))) = years * 12"
proof -
  have fn: "month_at current_year current_month = (\<lambda>k. Month (current_year + (current_month - 1 + k) div 12)
                         (Suc ((current_month - 1 + k) mod 12)))"
    by (rule ext) (simp add: month_at_def)
  show ?thesis
    using trial_months_eq [OF assms, of current_year] by (simp add: fn del: upt_Suc)
qed

theorem trial_months_witness:
  "filter is_Month (trial_events 2000 7 (1 * 12)) =
     [Month 2000 7, Month 2000 8, Month 2000 9, Month 2000 10, Month 2000 11, Month 2000 12,
      Month 2001 1, Month 2001 2, Month 2001 3, Month 2001 4, Month 2001 5, Month 2001 6]"
  using trial_months [of 1 7 2000] by (simp add: upt_rec)

text \<open>The statements after the inner loop run once for every calendar year the trial touches.\<close>

lemma year_end_count:
  "length (filter (\<lambda>e. \<not> is_Month e) (trial_events cy cm months)) =
     Suc (trial_end_year cy cm months - cy)"
  by (simp add: trial_events_def Let_def filter_concat_map filter_year_end_year_events
        length_concat o_def sum_list_triv trial_end_year_def del: upt_Suc)

lemma trial_events_mid_year:
  "trial_events 2000 7 (1 * 12) =
     [Month 2000 7, Month 2000 8, Month 2000 9, Month 2000 10, Month 2000 11, Month 2000 12,
      YearEnd 2000,
      Month 2001 1, Month 2001 2, Month 2001 3, Month 2001 4, Month 2001 5, Month 2001 6,
      YearEnd 2001]"
  by (simp add: trial_events_def trial_end_year_def trial_end_month_def year_events_def
        size_sub_def upt_rec)

section \<open>Properties: cursors and coverage\<close>

lemma fold_err_append:
  "fold_err f (xs @ ys) s = (case fold_err f xs s of Inl e \<Rightarrow> Inl e | Inr s' \<Rightarrow> fold_err f ys s')"
  by (induction xs arbitrary: s) (simp_all split: sum.splits)

lemma get_start_first:
  "k < length s \<Longrightarrow> year (s ! k) = y \<Longrightarrow> month (s ! k) = m \<Longrightarrow>
   (\<forall>j<k. \<not> (year (s ! j) = y \<and> month (s ! j) = m)) \<Longrightarrow> get_start s y m = Some k"
proof (induction s arbitrary: k)
  case Nil
  then show ?case by simp
next
  case (Cons d ds)
  show ?case
  proof (cases k)
    case 0
    with Cons.prems show ?thesis by simp
  next
    case (Suc k')
    with Cons.prems have "\<not> (year d = y \<and> month d = m)" by auto
    moreover have "get_start ds y m = Some k'"
    proof (rule Cons.IH)
      show "k' < length ds" using Cons.prems Suc by simp
      show "year (ds ! k') = y" "month (ds ! k') = m" using Cons.prems Suc by simp_all
      show "\<forall>j<k'. \<not> (year (ds ! j) = y \<and> month (ds ! j) = m)"
      proof (intro allI impI)
        fix j assume "j < k'"
        then have "Suc j < k" using Suc by simp
        with Cons.prems(4) have "\<not> (year ((d # ds) ! Suc j) = y \<and> month ((d # ds) ! Suc j) = m)"
          by blast
        then show "\<not> (year (ds ! j) = y \<and> month (ds ! j) = m)" by simp
      qed
    qed
    ultimately show ?thesis using Suc by simp
  qed
qed

lemma covers_nth:
  assumes "covers s lo hi" "j < length s"
  shows "month_index (s ! j) = month_index (hd s) + j" "1 \<le> month (s ! j)" "month (s ! j) \<le> 12"
proof -
  from assms(1) have m: "map month_index s = [month_index (hd s) ..< month_index (hd s) + length s]"
    and r: "list_all (\<lambda>d. 1 \<le> month d \<and> month d \<le> 12) s"
    by (simp_all add: covers_def)
  have "month_index (s ! j) = map month_index s ! j" using assms(2) by simp
  also have "\<dots> = month_index (hd s) + j" unfolding m using assms(2) by simp
  finally show "month_index (s ! j) = month_index (hd s) + j" .
  from r assms(2) show "1 \<le> month (s ! j)" "month (s ! j) \<le> 12"
    by (simp_all add: list_all_length)
qed

lemma twelve_split:
  assumes "b < 12" "c < 12"
  shows "(12 * a + b = 12 * y + c) = (a = y \<and> b = (c::nat))"
proof
  assume e: "12 * a + b = 12 * y + c"
  have "(12 * a + b) div 12 = a" "(12 * y + c) div 12 = y" using assms by simp_all
  with e have "a = y" by simp
  with e show "a = y \<and> b = c" by simp
next
  assume "a = y \<and> b = c" then show "12 * a + b = 12 * y + c" by simp
qed

lemma month_index_inj:
  assumes "1 \<le> month d" "month d \<le> 12" "1 \<le> m" "m \<le> 12"
  shows "month_index d = 12 * y + (m - 1) \<longleftrightarrow> year d = y \<and> month d = m"
proof -
  have "month d - 1 < 12" "m - 1 < 12" using assms by simp_all
  then have "month_index d = 12 * y + (m - 1) \<longleftrightarrow> year d = y \<and> month d - 1 = m - 1"
    unfolding month_index_def by (rule twelve_split)
  moreover have "month d - 1 = m - 1 \<longleftrightarrow> month d = m" using assms by auto
  ultimately show ?thesis by simp
qed

lemma covers_get_start:
  assumes c: "covers s lo hi" and m: "1 \<le> m" "m \<le> 12"
    and lo: "month_index (hd s) \<le> 12 * y + (m - 1)"
    and hi: "12 * y + (m - 1) < month_index (hd s) + length s"
  shows "get_start s y m = Some (12 * y + (m - 1) - month_index (hd s))"
proof (rule get_start_first)
  let ?k = "12 * y + (m - 1) - month_index (hd s)"
  show k: "?k < length s" using lo hi by simp
  have "month_index (s ! ?k) = 12 * y + (m - 1)"
    using covers_nth(1) [OF c k] lo by simp
  then have "year (s ! ?k) = y \<and> month (s ! ?k) = m"
    using month_index_inj [OF covers_nth(2,3) [OF c k] m, of y] by blast
  then show "year (s ! ?k) = y" "month (s ! ?k) = m" by simp_all
  show "\<forall>j<?k. \<not> (year (s ! j) = y \<and> month (s ! j) = m)"
  proof (intro allI impI)
    fix j assume j: "j < ?k"
    then have jl: "j < length s" using k by simp
    have "month_index (s ! j) \<noteq> 12 * y + (m - 1)"
      using covers_nth(1) [OF c jl] j by simp
    then show "\<not> (year (s ! j) = y \<and> month (s ! j) = m)"
      using month_index_inj [OF covers_nth(2,3) [OF c jl] m, of y] by blast
  qed
qed

lemma length_series_from [simp]: "length (series_from y0 f n) = n"
  by (simp add: series_from_def)

lemma nth_series_from:
  "k < n \<Longrightarrow> series_from y0 f n ! k = \<lparr>month = Suc (k mod 12), year = y0 + k div 12, value = f k\<rparr>"
  by (simp add: series_from_def)

lemma vector_at_series_from:
  "vector_at (series_from y0 f n) k =
     (if k < n then Inr \<lparr>month = Suc (k mod 12), year = y0 + k div 12, value = f k\<rparr>
      else Inl OutOfRange)"
  by (simp add: vector_at_def nth_series_from)

lemma covers_series_from:
  assumes "0 < n" "y0 \<le> lo" "12 * hi + 11 \<le> 12 * y0 + n"
  shows "covers (series_from y0 f n) lo hi"
proof -
  have ne: "series_from y0 f n \<noteq> []" using assms(1) by (simp add: series_from_def)
  have hd: "hd (series_from y0 f n) = \<lparr>month = Suc 0, year = y0, value = f 0\<rparr>"
    using assms(1) nth_series_from [of 0 n y0 f] by (simp add: hd_conv_nth [OF ne])
  have mi: "map month_index (series_from y0 f n) = [12 * y0 ..< 12 * y0 + n]"
  proof (rule nth_equalityI)
    show "length (map month_index (series_from y0 f n)) = length [12 * y0 ..< 12 * y0 + n]" by simp
  next
    fix i assume "i < length (map month_index (series_from y0 f n))"
    then have i: "i < n" by simp
    have "12 * (i div 12) + i mod 12 = i" by simp
    then have "12 * (y0 + i div 12) + i mod 12 = 12 * y0 + i" by (simp add: distrib_left)
    then show "map month_index (series_from y0 f n) ! i = [12 * y0 ..< 12 * y0 + n] ! i"
      using i by (simp add: nth_series_from month_index_def)
  qed
  have ms: "list_all (\<lambda>d. 1 \<le> month d \<and> month d \<le> 12) (series_from y0 f n)"
  proof -
    have "k mod 12 \<le> 11" for k :: nat
      using mod_less_divisor [of 12 k] by simp
    then show ?thesis by (simp add: list_all_length nth_series_from)
  qed
  show ?thesis
    unfolding covers_def using ne ms mi assms(2,3) by (simp add: hd month_index_def)
qed

section \<open>Properties: a trial runs to its end\<close>

lemma length_set_to_target [simp]: "length (set_to_target p t vs) = length p"
  by (simp add: set_to_target_def)

lemma length_monthly_rebalance [simp]: "length (monthly_rebalance p vs) = length p"
  by (simp add: monthly_rebalance_def Let_def)

lemma length_yearly_rebalance [simp]: "length (yearly_rebalance p vs) = length p"
  by (simp add: yearly_rebalance_def Let_def)

lemma length_threshold_rebalance:
  "length vs = length p \<Longrightarrow> length (threshold_rebalance p threshold vs) = length p"
  by (simp add: threshold_rebalance_def Let_def)

lemma length_withdraw [simp]: "length (withdraw amount vs) = length vs"
  by (simp add: withdraw_def Let_def)

lemma apply_returns_total:
  "list_all2 (\<lambda>s c. c + Suc r \<le> length s) vals cs \<Longrightarrow> length vs = length cs \<Longrightarrow>
   \<exists>vs' cs'. apply_returns vals vs cs = Inr (vs', cs')
      \<and> list_all2 (\<lambda>s c. c + r \<le> length s) vals cs' \<and> length vs' = length vs"
proof (induction vals cs arbitrary: vs rule: list_all2_induct)
  case Nil
  then show ?case by simp
next
  case (Cons s vals c cs)
  from Cons.prems obtain v vs0 where vs: "vs = v # vs0" "length vs0 = length cs"
    by (cases vs) auto
  from Cons.IH [OF vs(2)] obtain vs1 cs1 where
    r: "apply_returns vals vs0 cs = Inr (vs1, cs1)" "list_all2 (\<lambda>s c. c + r \<le> length s) vals cs1"
      "length vs1 = length vs0"
    by blast
  show ?case using Cons.hyps(1) r by (simp add: vs(1) vector_at_def)
qed

lemma month_step_total:
  assumes len: "length vals = length p"
    and C: "cursors_ok p infl vals (Suc r) st"
  shows "\<exists>st'. month_step p infl vals monthly_wr rebalance threshold st = Inr st'
           \<and> cursors_ok p infl vals r st'"
proof -
  from C have c0: "length (current_values st) = length p"
    and c1: "list_all2 (\<lambda>s c. c + Suc r \<le> length s) vals (returns st)"
    and c2: "inflation st + Suc r \<le> length infl" by (simp_all add: cursors_ok_def)
  have "length (current_values st) = length (returns st)"
    using c0 list_all2_lengthD [OF c1] len by simp
  from apply_returns_total [OF c1 this] obtain vs1 cs1 where
    r: "apply_returns vals (current_values st) (returns st) = Inr (vs1, cs1)"
    and c1': "list_all2 (\<lambda>s c. c + r \<le> length s) vals cs1"
    and l1: "length vs1 = length p" using c0 by auto
  define vs2 where "vs2 = (if rebalance = MONTHLY then monthly_rebalance p vs1 else vs1)"
  define vs3 where "vs3 = (if rebalance = THRESHOLD then threshold_rebalance p threshold vs2 else vs2)"
  define w where "w = withdrawal st * value (infl ! inflation st)"
  define vs4 where "vs4 = (if monthly_wr then withdraw (w / 12) vs3 else vs3)"
  have l2: "length vs2 = length p" using l1 by (simp add: vs2_def)
  have l3: "length vs3 = length p" using l2 by (simp add: vs3_def length_threshold_rebalance)
  have l4: "length vs4 = length p" using l3 by (simp add: vs4_def)
  have d: "vector_at infl (inflation st) = Inr (infl ! inflation st)"
    using c2 by (simp add: vector_at_def)
  have "month_step p infl vals monthly_wr rebalance threshold st =
      Inr \<lparr>current_values = vs4, returns = cs1, inflation = Suc (inflation st), withdrawal = w\<rparr>"
    by (simp add: month_step_def Let_def r d vs2_def vs3_def vs4_def w_def)
  moreover have "cursors_ok p infl vals r
      \<lparr>current_values = vs4, returns = cs1, inflation = Suc (inflation st), withdrawal = w\<rparr>"
    using c1' c2 l4 by (simp add: cursors_ok_def)
  ultimately show ?thesis by blast
qed

lemma year_step_cursors:
  "cursors_ok p infl vals r st \<Longrightarrow> cursors_ok p infl vals r (year_step p monthly_wr rebalance st)"
  by (simp add: cursors_ok_def year_step_def Let_def)

lemma run_total:
  assumes len: "length vals = length p"
  shows "cursors_ok p infl vals (length (filter is_Month evs)) st \<Longrightarrow>
    \<exists>st'. fold_err (step p infl vals monthly_wr rebalance threshold) evs st = Inr st'"
proof (induction evs arbitrary: st)
  case Nil
  then show ?case by simp
next
  case (Cons e evs)
  show ?case
  proof (cases e)
    case (Month y m)
    with Cons.prems have C: "cursors_ok p infl vals (Suc (length (filter is_Month evs))) st" by simp
    from month_step_total [OF len C] obtain st1 where
      s: "month_step p infl vals monthly_wr rebalance threshold st = Inr st1"
      and C1: "cursors_ok p infl vals (length (filter is_Month evs)) st1" by blast
    from Cons.IH [OF C1] show ?thesis using s Month by simp
  next
    case (YearEnd y)
    with Cons.prems have "cursors_ok p infl vals (length (filter is_Month evs))
        (year_step p monthly_wr rebalance st)"
      by (simp add: year_step_cursors)
    from Cons.IH [OF this] show ?thesis using YearEnd by simp
  qed
qed

lemma room_for_months:
  "(a::nat) + c \<le> h \<Longrightarrow> h + 11 \<le> t \<Longrightarrow> r < 12 \<Longrightarrow> a + r + c \<le> t"
  by linarith

lemma covers_start:
  assumes c: "covers s lo hi" and lo: "lo \<le> cy" and hi: "cy + years \<le> hi" and y: "1 \<le> years"
  shows "\<exists>c. get_start s cy ((cm mod 12) + 1) = Some c \<and> c + 12 * years \<le> length s"
proof -
  let ?b = "month_index (hd s)"
  from c have b1: "?b \<le> 12 * lo" and b2: "12 * hi + 11 \<le> ?b + length s"
    by (simp_all add: covers_def)
  have m: "cm mod 12 < 12" by simp
  have l: "?b \<le> 12 * cy + (cm mod 12 + 1 - 1)" using b1 lo by simp
  have "12 * cy + 12 * years \<le> 12 * hi" using hi by simp
  then have h: "12 * cy + cm mod 12 + 12 * years \<le> ?b + length s"
    using b2 m by (rule room_for_months)
  then have h': "12 * cy + (cm mod 12 + 1 - 1) < ?b + length s" using y by simp
  have "get_start s cy ((cm mod 12) + 1) = Some (12 * cy + (cm mod 12 + 1 - 1) - ?b)"
    using m by (intro covers_get_start [OF c _ _ l h']) simp_all
  moreover have "12 * cy + (cm mod 12 + 1 - 1) - ?b + 12 * years \<le> length s"
    using h l by simp
  ultimately show ?thesis by blast
qed

lemma init_assets_total:
  assumes lo: "lo \<le> cy" and hi: "cy + years \<le> hi" and y: "1 \<le> years"
  shows "length vals = length p \<Longrightarrow> list_all (\<lambda>s. covers s lo hi) vals \<Longrightarrow>
    \<exists>vs cs. init_assets p vals cy cm = Inr (vs, cs)
       \<and> list_all2 (\<lambda>s c. c + 12 * years \<le> length s) vals cs \<and> length vs = length p"
proof (induction vals p rule: list_induct2)
  case Nil
  then show ?case by simp
next
  case (Cons s vals a p)
  from Cons.prems have c: "covers s lo hi" and cs: "list_all (\<lambda>s. covers s lo hi) vals"
    by simp_all
  from covers_start [OF c lo hi y, of cm] obtain c0 where
    g: "get_start s cy ((cm mod 12) + 1) = Some c0" and b: "c0 + 12 * years \<le> length s" by blast
  from Cons.IH [OF cs] obtain vs1 cs1 where
    r: "init_assets p vals cy cm = Inr (vs1, cs1)"
    and a: "list_all2 (\<lambda>s c. c + 12 * years \<le> length s) vals cs1"
    and l: "length vs1 = length p" by blast
  show ?case using g r a b l by simp
qed

lemma trial_total:
  assumes len: "length vals = length p"
    and ci: "covers infl lo hi" and cv: "list_all (\<lambda>s. covers s lo hi) vals"
    and lo: "lo \<le> cy" and hi: "cy + years \<le> hi"
    and y: "1 \<le> years" and m: "1 \<le> cm" "cm \<le> 12"
  shows "\<exists>final_value. trial p infl vals years wr monthly_wr rebalance threshold cy cm = Inr final_value"
proof -
  from init_assets_total [OF lo hi y len cv, of cm] obtain vs cs where
    a: "init_assets p vals cy cm = Inr (vs, cs)"
    and b: "list_all2 (\<lambda>s c. c + 12 * years \<le> length s) vals cs"
    and l: "length vs = length p" by blast
  from covers_start [OF ci lo hi y, of cm] obtain c where
    g: "get_start infl cy ((cm mod 12) + 1) = Some c" and gb: "c + 12 * years \<le> length infl" by blast
  let ?st = "\<lparr>current_values = vs, returns = cs, inflation = c, withdrawal = start_value * wr / 100\<rparr>"
  have i: "trial_init p infl vals wr cy cm = Inr ?st"
    using a g by (simp add: trial_init_def)
  have "cursors_ok p infl vals (years * 12) ?st"
    using b gb l by (simp add: cursors_ok_def mult.commute)
  then have C: "cursors_ok p infl vals (length (filter is_Month (trial_events cy cm (years * 12)))) ?st"
    by (simp only: trial_months_length [OF y m])
  from run_total [OF len C] obtain st' where
    "fold_err (step p infl vals monthly_wr rebalance threshold) (trial_events cy cm (years * 12)) ?st = Inr st'"
    by blast
  then show ?thesis using i by (simp add: trial_def)
qed

lemma trials_exist:
  "(\<forall>start\<in>set starts. \<exists>fv. f start = Inr fv) \<Longrightarrow>
   \<exists>fvs. list_all2 (\<lambda>start fv. f start = Inr fv) starts fvs"
proof (induction starts)
  case Nil
  then show ?case by simp
next
  case (Cons start starts)
  from Cons.prems obtain fv where a: "f start = Inr fv" by auto
  from Cons.prems have "\<forall>start\<in>set starts. \<exists>fv. f start = Inr fv" by simp
  from Cons.IH [OF this] obtain fvs where "list_all2 (\<lambda>start fv. f start = Inr fv) starts fvs"
    by blast
  with a have "list_all2 (\<lambda>start fv. f start = Inr fv) (start # starts) (fv # fvs)" by simp
  then show ?case by blast
qed

lemma run_trials_values:
  "list_all2 (\<lambda>start fv. trial p infl vals years wr monthly_wr rebalance threshold
        (fst start) (snd start) = Inr fv) starts fvs \<Longrightarrow>
   fold_err (record_trial p infl vals years wr monthly_wr rebalance threshold) starts (res, tvs) =
     Inr (res\<lparr>successes := successes res + length (filter (fless (Finite 0)) fvs),
              failures := failures res + length (filter (\<lambda>fv. \<not> fless (Finite 0) fv) fvs)\<rparr>,
          tvs @ fvs)"
proof (induction starts fvs arbitrary: res tvs rule: list_all2_induct)
  case Nil
  then show ?case by simp
next
  case (Cons start starts fv fvs)
  show ?case
  proof (cases "fless (Finite 0) fv")
    case True
    have "record_trial p infl vals years wr monthly_wr rebalance threshold start (res, tvs) =
        Inr (res\<lparr>successes := successes res + 1\<rparr>, tvs @ [fv])"
      using Cons.hyps(1) True by (simp add: record_trial_def)
    then show ?thesis
      using True by (simp add: Cons.IH)
  next
    case False
    have "record_trial p infl vals years wr monthly_wr rebalance threshold start (res, tvs) =
        Inr (res\<lparr>failures := failures res + 1\<rparr>, tvs @ [fv])"
      using Cons.hyps(1) False by (simp add: record_trial_def)
    then show ?thesis
      using False by (simp add: Cons.IH)
  qed
qed

lemma length_trial_starts:
  "length (trial_starts years start_year end_year) = 12 * (Suc (size_sub end_year years) - start_year)"
  by (simp add: trial_starts_def length_concat o_def sum_list_triv del: upt_Suc)

lemma set_trial_starts:
  "start \<in> set (trial_starts years start_year end_year) \<Longrightarrow>
   start_year \<le> fst start \<and> fst start \<le> size_sub end_year years \<and> 1 \<le> snd start \<and> snd start \<le> 12"
  by (auto simp: trial_starts_def simp del: upt_Suc)

section \<open>Properties: sample runs\<close>

lemma year_of_months: "map (Month y) [1 ..< 13] =
  [Month y 1, Month y 2, Month y 3, Month y 4, Month y 5, Month y 6,
   Month y 7, Month y 8, Month y 9, Month y 10, Month y 11, Month y 12]"
  by (simp add: upt_rec)

lemma get_start_series_from:
  assumes m: "1 \<le> m" "m \<le> 12" and y: "y0 \<le> y" and k: "12 * (y - y0) + (m - 1) < n"
  shows "get_start (series_from y0 f n) y m = Some (12 * (y - y0) + (m - 1))"
proof (rule get_start_first)
  let ?k = "12 * (y - y0) + (m - 1)"
  have m1: "m - 1 < 12" using m by simp
  have "(m - 1) div 12 = 0" using m1 by (rule div_less)
  then have d: "?k div 12 = y - y0" by simp
  have "(m - 1) mod 12 = m - 1" using m1 by (rule mod_less)
  then have r: "?k mod 12 = m - 1" by simp
  show "?k < length (series_from y0 f n)" using k by simp
  have "y0 + (y - y0) = y" "Suc (m - 1) = m" using y m by simp_all
  then have "series_from y0 f n ! ?k = \<lparr>month = m, year = y, value = f ?k\<rparr>"
    using nth_series_from [OF k, of y0 f] by (simp only: d r)
  then show "year (series_from y0 f n ! ?k) = y" "month (series_from y0 f n ! ?k) = m"
    by simp_all
  show "\<forall>j<?k. \<not> (year (series_from y0 f n ! j) = y \<and> month (series_from y0 f n ! j) = m)"
  proof (intro allI impI notI)
    fix j assume j: "j < ?k" and "year (series_from y0 f n ! j) = y \<and> month (series_from y0 f n ! j) = m"
    then have "y0 + j div 12 = y" "Suc (j mod 12) = m" using k by (simp_all add: nth_series_from)
    then have "j div 12 = y - y0" "j mod 12 = m - 1" by auto
    then have "12 * (j div 12) + j mod 12 = ?k" by simp
    then have "j = ?k" by simp
    with j show False by simp
  qed
qed

lemma trial_init_one_asset:
  assumes y: "y0 \<le> cy" and k: "12 * (cy - y0) + cm mod 12 < n"
  shows "trial_init one_asset (series_from y0 f n) [series_from y0 g n] wr cy cm =
     Inr \<lparr>current_values = [Finite 1000], returns = [12 * (cy - y0) + cm mod 12],
          inflation = 12 * (cy - y0) + cm mod 12, withdrawal = start_value * wr / 100\<rparr>"
proof -
  have "get_start (series_from y0 h n) cy ((cm mod 12) + 1) = Some (12 * (cy - y0) + cm mod 12)" for h
    using get_start_series_from [of "(cm mod 12) + 1" y0 cy n h] y k by simp
  then show ?thesis
    by (simp add: trial_init_def one_asset_def start_value_def)
qed

lemma trial_init_two:
  assumes y: "y0 \<le> cy" and k: "12 * (cy - y0) + cm mod 12 < n"
  shows "trial_init [a, b] (series_from y0 f n) [series_from y0 g n, series_from y0 h n] wr cy cm =
     Inr \<lparr>current_values = [Finite (start_value * (allocation a / 100)),
                            Finite (start_value * (allocation b / 100))],
          returns = [12 * (cy - y0) + cm mod 12, 12 * (cy - y0) + cm mod 12],
          inflation = 12 * (cy - y0) + cm mod 12, withdrawal = start_value * wr / 100\<rparr>"
proof -
  have "get_start (series_from y0 h n) cy ((cm mod 12) + 1) = Some (12 * (cy - y0) + cm mod 12)" for h
    using get_start_series_from [of "(cm mod 12) + 1" y0 cy n h] y k by simp
  then show ?thesis
    by (simp add: trial_init_def)
qed

lemma series_from_nonneg:
  "(\<And>k. 0 \<le> f k) \<Longrightarrow> list_all (\<lambda>d. 0 \<le> value d) (series_from y0 f n)"
  by (simp add: list_all_length nth_series_from)

lemma fold_err_fails:
  "fold_err f xs s = Inl e \<Longrightarrow> fold_err f (xs @ ys) s = Inl e"
  by (simp add: fold_err_append)

lemma trial_events_first_year:
  assumes "cy < trial_end_year cy cm months"
  shows "\<exists>rest. trial_events cy cm months = map (Month cy) [cm ..< 13] @ rest"
proof -
  have "[cy ..< Suc (trial_end_year cy cm months)] = cy # [Suc cy ..< Suc (trial_end_year cy cm months)]"
    using assms by (simp add: upt_conv_Cons)
  then show ?thesis
    using assms by (simp add: trial_events_def Let_def year_events_def del: upt_Suc)
qed

lemma twelve_months_fail:
  "fold_err (step one_asset (series_from 2000 (\<lambda>k. 1) 12) [series_from 2000 (\<lambda>k. 1) 12] False NONE 0)
     (map (Month 2000) [1 ..< 13])
     \<lparr>current_values = [Finite 1000], returns = [1], inflation = 1, withdrawal = 40\<rparr> = Inl OutOfRange"
  unfolding year_of_months
  by (simp add: month_step_def one_asset_def vector_at_series_from Let_def)

lemma zero_year_trial:
  "trial one_asset (series_from 2000 (\<lambda>k. 1) 12) [series_from 2000 (\<lambda>k. 1) 12] 0 4 False NONE 0 2000 1
     = Inl OutOfRange"
proof -
  let ?S = "series_from 2000 (\<lambda>k. 1) 12"
  have i: "trial_init one_asset ?S [?S] 4 2000 1 =
      Inr \<lparr>current_values = [Finite 1000], returns = [1], inflation = 1, withdrawal = 40\<rparr>"
    using trial_init_one_asset [of 2000 2000 1 12 "\<lambda>k. 1" "\<lambda>k. 1" 4]
    by (simp add: start_value_def)
  have "2000 < trial_end_year 2000 1 (0 * 12)"
    by (simp add: trial_end_year_def size_sub_def)
  from trial_events_first_year [OF this] obtain rest where
    e: "trial_events 2000 1 (0 * 12) = map (Month 2000) [1 ..< 13] @ rest" by blast
  have "fold_err (step one_asset ?S [?S] False NONE 0) (trial_events 2000 1 (0 * 12))
      \<lparr>current_values = [Finite 1000], returns = [1], inflation = 1, withdrawal = 40\<rparr> = Inl OutOfRange"
    unfolding e by (rule fold_err_fails) (rule twelve_months_fail)
  then show ?thesis by (simp only: trial_def i sum.case)
qed

lemma trial_events_one_year:
  "trial_events 2000 1 (1 * 12) =
     [Month 2000 1, Month 2000 2, Month 2000 3, Month 2000 4, Month 2000 5, Month 2000 6,
      Month 2000 7, Month 2000 8, Month 2000 9, Month 2000 10, Month 2000 11, Month 2000 12,
      YearEnd 2000]"
  by (simp add: trial_events_def trial_end_year_def trial_end_month_def year_events_def
        size_sub_def upt_rec)

text \<open>
  One-year trials on flat series, one asset and a rate of 4 percent: started in January,
  the trial in annual mode withdraws once and ends at 960; started in July, it withdraws
  at the end of 2000 and again at its own end and ends at 920, where monthly mode ends at
  960.
\<close>

lemma annual_trial_january:
  "trial one_asset (series_from 2000 (\<lambda>k. 1) 24) [series_from 2000 (\<lambda>k. 1) 24]
     1 4 False NONE 0 2000 1 = Inr (Finite 960)"
proof -
  let ?S = "series_from 2000 (\<lambda>k. 1) 24"
  have i: "trial_init one_asset ?S [?S] 4 2000 1 =
      Inr \<lparr>current_values = [Finite 1000], returns = [1], inflation = 1, withdrawal = 40\<rparr>"
    using trial_init_one_asset [of 2000 2000 1 24 "\<lambda>k. 1" "\<lambda>k. 1" 4]
    by (simp add: start_value_def)
  have a: "fold_err (step one_asset ?S [?S] False NONE 0) (trial_events 2000 1 (1 * 12))
       \<lparr>current_values = [Finite 1000], returns = [1], inflation = 1, withdrawal = 40\<rparr> =
      Inr \<lparr>current_values = [Finite 960], returns = [13], inflation = 13, withdrawal = 40\<rparr>"
    unfolding trial_events_one_year
    by (simp add: month_step_def year_step_def one_asset_def vector_at_series_from Let_def
        withdraw_def withdraw_value_def fsub_def fmax_def)
  show ?thesis by (simp only: trial_def i a sum.case) simp
qed

lemma annual_trial_july:
  "trial one_asset (series_from 2000 (\<lambda>k. 1) 24) [series_from 2000 (\<lambda>k. 1) 24]
     1 4 False NONE 0 2000 7 = Inr (Finite 920)"
proof -
  let ?S = "series_from 2000 (\<lambda>k. 1) 24"
  have i: "trial_init one_asset ?S [?S] 4 2000 7 =
      Inr \<lparr>current_values = [Finite 1000], returns = [7], inflation = 7, withdrawal = 40\<rparr>"
    using trial_init_one_asset [of 2000 2000 7 24 "\<lambda>k. 1" "\<lambda>k. 1" 4]
    by (simp add: start_value_def)
  have a: "fold_err (step one_asset ?S [?S] False NONE 0) (trial_events 2000 7 (1 * 12))
       \<lparr>current_values = [Finite 1000], returns = [7], inflation = 7, withdrawal = 40\<rparr> =
      Inr \<lparr>current_values = [Finite 920], returns = [19], inflation = 19, withdrawal = 40\<rparr>"
    unfolding trial_events_mid_year
    by (simp add: month_step_def year_step_def one_asset_def vector_at_series_from Let_def
        withdraw_def withdraw_value_def fsub_def fmax_def)
  show ?thesis by (simp only: trial_def i a sum.case) simp
qed

lemma monthly_trial_july:
  "trial one_asset (series_from 2000 (\<lambda>k. 1) 24) [series_from 2000 (\<lambda>k. 1) 24]
     1 4 True NONE 0 2000 7 = Inr (Finite 960)"
proof -
  let ?S = "series_from 2000 (\<lambda>k. 1) 24"
  have i: "trial_init one_asset ?S [?S] 4 2000 7 =
      Inr \<lparr>current_values = [Finite 1000], returns = [7], inflation = 7, withdrawal = 40\<rparr>"
    using trial_init_one_asset [of 2000 2000 7 24 "\<lambda>k. 1" "\<lambda>k. 1" 4]
    by (simp add: start_value_def)
  have m: "fold_err (step one_asset ?S [?S] True NONE 0) (trial_events 2000 7 (1 * 12))
       \<lparr>current_values = [Finite 1000], returns = [7], inflation = 7, withdrawal = 40\<rparr> =
      Inr \<lparr>current_values = [Finite 960], returns = [19], inflation = 19, withdrawal = 40\<rparr>"
    unfolding trial_events_mid_year
    by (simp add: month_step_def year_step_def one_asset_def vector_at_series_from Let_def
        withdraw_def withdraw_value_def fsub_def fmax_def)
  show ?thesis by (simp only: trial_def i m sum.case) simp
qed

section \<open>Properties: the trials of a simulation\<close>

text \<open>
  C3, amended. With a horizon of at least one year, \<open>start_year + years \<le> end_year\<close>, one
  series per asset and every series holding each month from January of \<open>start_year\<close> to
  November of \<open>end_year\<close>, the loop of the simulation goes through the start months in
  order, from month 1 of \<open>start_year\<close> to month 12 of \<open>end_year - years\<close>, and runs one
  trial for each: every one of these trials returns a terminal value, a trial counts as
  a success when its terminal value is above zero and as a failure otherwise, the
  terminal values \<open>tvs\<close> of the loop are those of these trials in this order, the other
  fields are computed from \<open>tvs\<close>, and successes and failures together are
  \<open>12 * (end_year - years - start_year + 1)\<close>, by which the process-wide counter grows.
  Nothing is asked of the signs of the weights or of the return factors.
\<close>

theorem simulation_count:
  assumes y: "1 \<le> years" and cfg: "start_year + years \<le> end_year"
    and len: "length vals = length portfolio"
    and ci: "covers inflation_data start_year end_year"
    and cv: "list_all (\<lambda>s. covers s start_year end_year) vals"
  shows "\<exists>tvs res.
      trial_starts years start_year end_year =
        concat (map (\<lambda>current_year. map (Pair current_year) [1 ..< 13])
                  [start_year ..< Suc (end_year - years)])
      \<and> list_all2
        (\<lambda>start fv. trial portfolio inflation_data vals years wr monthly_wr rebalance threshold
                       (fst start) (snd start) = Inr fv)
        (concat (map (\<lambda>current_year. map (Pair current_year) [1 ..< 13])
                   [start_year ..< Suc (end_year - years)]))
        tvs
      \<and> length tvs = 12 * (end_year - years - start_year + 1)
      \<and> fold_err
           (record_trial portfolio inflation_data vals years wr monthly_wr rebalance threshold)
           (trial_starts years start_year end_year) (new_results, []) =
         Inr (new_results
                \<lparr>successes := length (filter (fless (Finite 0)) tvs),
                 failures := length (filter (\<lambda>fv. \<not> fless (Finite 0) fv) tvs)\<rparr>, tvs)
      \<and> simulation simulations portfolio inflation_data vals years wr start_year end_year
           monthly_wr rebalance threshold = Inr (res, simulations + length tvs)
      \<and> compute_terminal_values
           (new_results
              \<lparr>successes := length (filter (fless (Finite 0)) tvs),
               failures := length (filter (\<lambda>fv. \<not> fless (Finite 0) fv) tvs),
               success_rate :=
                 fmul (Finite 100)
                   (fdiv (Finite (real (length (filter (fless (Finite 0)) tvs))))
                      (Finite (real (length (filter (fless (Finite 0)) tvs)
                                     + length (filter (\<lambda>fv. \<not> fless (Finite 0) fv) tvs)))))\<rparr>)
           tvs = Inr res
      \<and> successes res = length (filter (fless (Finite 0)) tvs)
      \<and> failures res = length (filter (\<lambda>fv. \<not> fless (Finite 0) fv) tvs)
      \<and> successes res + failures res = 12 * (end_year - years - start_year + 1)"
proof -
  let ?starts = "trial_starts years start_year end_year"
  let ?s = "\<lambda>tvs. length (filter (fless (Finite 0)) tvs)"
  let ?f = "\<lambda>tvs. length (filter (\<lambda>fv. \<not> fless (Finite 0) fv) tvs)"
  have ss: "size_sub end_year years = end_year - years" using cfg by simp
  have st: "?starts = concat (map (\<lambda>current_year. map (Pair current_year) [1 ..< 13])
                   [start_year ..< Suc (end_year - years)])"
    by (simp only: trial_starts_def ss)
  have n: "length ?starts = 12 * (end_year - years - start_year + 1)"
    using cfg by (simp add: length_trial_starts ss Suc_diff_le)
  have "\<forall>start\<in>set ?starts. \<exists>fv. trial portfolio inflation_data vals years wr monthly_wr rebalance
      threshold (fst start) (snd start) = Inr fv"
  proof
    fix start assume "start \<in> set ?starts"
    from set_trial_starts [OF this] have lo: "start_year \<le> fst start"
      and hi': "fst start \<le> end_year - years" and m: "1 \<le> snd start" "snd start \<le> 12"
      by (simp_all add: ss)
    have "years \<le> end_year" using cfg by simp
    with hi' have hi: "fst start + years \<le> end_year" by simp
    show "\<exists>fv. trial portfolio inflation_data vals years wr monthly_wr rebalance
      threshold (fst start) (snd start) = Inr fv"
      by (rule trial_total [OF len ci cv lo hi y m])
  qed
  from trials_exist [OF this] obtain tvs where
    t: "list_all2 (\<lambda>start fv. trial portfolio inflation_data vals years wr monthly_wr rebalance
          threshold (fst start) (snd start) = Inr fv) ?starts tvs" by blast
  have l: "length tvs = 12 * (end_year - years - start_year + 1)"
    using list_all2_lengthD [OF t] n by simp
  define res0 where "res0 = new_results\<lparr>successes := ?s tvs, failures := ?f tvs\<rparr>"
  have f: "fold_err (record_trial portfolio inflation_data vals years wr monthly_wr rebalance threshold)
          ?starts (new_results, []) = Inr (res0, tvs)"
    using run_trials_values [OF t, of new_results "[]"] by (simp add: res0_def new_results_def)
  define res1 where "res1 = res0\<lparr>success_rate :=
      fmul (Finite 100) (fdiv (Finite (real (successes res0)))
        (Finite (real (successes res0 + failures res0))))\<rparr>"
  have r1: "res1 = new_results
              \<lparr>successes := ?s tvs, failures := ?f tvs,
               success_rate :=
                 fmul (Finite 100)
                   (fdiv (Finite (real (?s tvs))) (Finite (real (?s tvs + ?f tvs))))\<rparr>"
    by (simp add: res1_def res0_def)
  have "3 \<le> length tvs" unfolding l by simp
  from compute_terminal_values_three [OF this, of res1] obtain res where
    c: "compute_terminal_values res1 tvs = Inr res"
    and s: "successes res = successes res1" "failures res = failures res1" by auto
  have sim: "simulation simulations portfolio inflation_data vals years wr start_year end_year
                 monthly_wr rebalance threshold = Inr (res, simulations + length tvs)"
    using c by (simp only: simulation_def f sum.case prod.case res1_def)
  have cnt: "?s tvs + ?f tvs = length tvs" by (rule sum_length_filter_compl)
  have s1: "successes res = ?s tvs" "failures res = ?f tvs" using s by (simp_all add: r1)
  have tot: "successes res + failures res = 12 * (end_year - years - start_year + 1)"
    unfolding s1 cnt l ..
  show ?thesis
    by (intro exI conjI) (rule st t [unfolded st] l f [unfolded res0_def] sim c [unfolded r1] s1 tot)+
qed

text \<open>
  On flat series for 2000 and 2001, one asset and annual withdrawals of 4 percent, the
  twelve one-year trials start in the months of 2000: the first terminal value is that of
  the trial started in January, 960, and the seventh that of the trial started in July,
  920.
\<close>

theorem simulation_count_witness:
  "\<exists>tvs res.
      trial_starts 1 2000 2001 =
        [(2000, 1), (2000, 2), (2000, 3), (2000, 4), (2000, 5), (2000, 6),
         (2000, 7), (2000, 8), (2000, 9), (2000, 10), (2000, 11), (2000, 12)]
      \<and> length tvs = 12
      \<and> tvs ! 0 = Finite 960
      \<and> tvs ! 6 = Finite 920
      \<and> simulation 0 one_asset (series_from 2000 (\<lambda>k. 1) 24) [series_from 2000 (\<lambda>k. 1) 24]
            1 4 2000 2001 False NONE 0 = Inr (res, 0 + length tvs)
      \<and> successes res + failures res = 12"
proof -
  let ?S = "series_from 2000 (\<lambda>k. 1) 24"
  let ?starts = "[(2000, 1), (2000, 2), (2000, 3), (2000, 4), (2000, 5), (2000, 6),
         (2000, 7), (2000, 8), (2000, 9), (2000, 10), (2000, 11), (2000::nat, 12::nat)]"
  have c: "covers ?S 2000 2001"
    by (rule covers_series_from) simp_all
  have e: "concat (map (\<lambda>current_year. map (Pair current_year) [1 ..< 13]) [2000 ..< Suc (2001 - 1)])
      = ?starts"
    by (simp add: upt_rec)
  from simulation_count [of 1 2000 2001 "[?S]" one_asset ?S 4 False NONE 0 0] c
  obtain tvs res where
    st: "trial_starts 1 2000 2001 =
      concat (map (\<lambda>current_year. map (Pair current_year) [1 ..< 13]) [2000 ..< Suc (2001 - 1)])"
    and t: "list_all2
        (\<lambda>start fv. trial one_asset ?S [?S] 1 4 False NONE 0 (fst start) (snd start) = Inr fv)
        (concat (map (\<lambda>current_year. map (Pair current_year) [1 ..< 13]) [2000 ..< Suc (2001 - 1)]))
        tvs"
    and l: "length tvs = 12 * (2001 - 1 - 2000 + 1)"
    and sim: "simulation 0 one_asset ?S [?S] 1 4 2000 2001 False NONE 0 = Inr (res, 0 + length tvs)"
    and tot: "successes res + failures res = 12 * (2001 - 1 - 2000 + 1)"
    by (auto simp: one_asset_def)
  have l12: "length tvs = 12" using l by simp
  have t': "list_all2
        (\<lambda>start fv. trial one_asset ?S [?S] 1 4 False NONE 0 (fst start) (snd start) = Inr fv)
        ?starts tvs"
    using t unfolding e .
  have "trial one_asset ?S [?S] 1 4 False NONE 0 (fst (?starts ! 0)) (snd (?starts ! 0)) = Inr (tvs ! 0)"
    by (rule list_all2_nthD [OF t']) simp
  then have t0: "tvs ! 0 = Finite 960" by (simp add: annual_trial_january del: One_nat_def)
  have "trial one_asset ?S [?S] 1 4 False NONE 0 (fst (?starts ! 6)) (snd (?starts ! 6)) = Inr (tvs ! 6)"
    by (rule list_all2_nthD [OF t']) simp
  then have t6: "tvs ! 6 = Finite 920" by (simp add: annual_trial_july del: One_nat_def)
  have tot12: "successes res + failures res = 12" using tot by simp
  show ?thesis
    by (intro exI conjI) (rule st [unfolded e] l12 t0 t6 sim tot12)+
qed

text \<open>
  C3, as stated, fails for a horizon of zero years, which \<open>start_year + years \<le> end_year\<close>
  allows: \<^verbatim>\<open>months - 1\<close> wraps around, the end of the trial that starts in January lies
  more than \<open>10 ^ 18\<close> years ahead, and the trial reads past the end of every series.
\<close>

theorem simulation_zero_years:
  "2000 + 0 \<le> (2000::nat)
   \<and> simulation 0 one_asset (series_from 2000 (\<lambda>k. 1) 12) [series_from 2000 (\<lambda>k. 1) 12]
        0 4 2000 2000 False NONE 0 = Inl OutOfRange"
proof -
  have "[2000 ..< Suc 2000] = [2000::nat]" by simp
  then have "trial_starts 0 2000 2000 = map (Pair 2000) [1 ..< 13]"
    by (simp add: trial_starts_def size_sub_def del: upt_Suc)
  also have "\<dots> = (2000, 1) # map (Pair 2000) [2 ..< 13]"
    by (simp add: upt_rec)
  finally have s: "trial_starts 0 2000 2000 = (2000, 1) # map (Pair 2000) [2 ..< 13]" .
  have "record_trial one_asset (series_from 2000 (\<lambda>k. 1) 12) [series_from 2000 (\<lambda>k. 1) 12]
          0 4 False NONE 0 (2000, 1) (new_results, []) = Inl OutOfRange"
    by (simp add: record_trial_def zero_year_trial del: One_nat_def)
  then show ?thesis
    by (simp add: simulation_def s del: upt_Suc One_nat_def)
qed

section \<open>Properties: weights and factors that are not negative\<close>

text \<open>
  When no weight and no return factor is negative, \<open>asset_ok\<close> holds of every asset
  throughout a trial: returns, the three kinds of rebalancing and the withdrawals keep
  it.
\<close>

lemma weight_ok_nonneg: "list_all2 weight_ok p vs \<Longrightarrow> v \<in> set vs \<Longrightarrow> 0 \<le> v"
  by (auto simp: in_set_conv_nth list_all2_conv_all_nth weight_ok_def)

lemma weight_ok_sum_nonneg: "list_all2 weight_ok p vs \<Longrightarrow> 0 \<le> sum_list vs"
  by (rule sum_list_nonneg) (rule weight_ok_nonneg)

lemma weight_ok_sum_zero:
  "list_all2 weight_ok p vs \<Longrightarrow> sum_list vs = 0 \<Longrightarrow> v \<in> set vs \<Longrightarrow> v = 0"
  using sum_list_nonneg_eq_0_iff [of vs] weight_ok_nonneg [of p vs] by blast

lemma member_le_sum_list_real:
  "list_all (\<lambda>x. 0 \<le> x) xs \<Longrightarrow> x \<in> set xs \<Longrightarrow> x \<le> sum_list (xs::real list)"
proof (induction xs)
  case Nil
  then show ?case by simp
next
  case (Cons y ys)
  have "0 \<le> sum_list ys" using Cons.prems(1) by (simp add: sum_list_nonneg list_all_iff)
  with Cons show ?case by auto
qed

lemma zero_weights_zero_sum:
  "list_all2 weight_ok p vs \<Longrightarrow> list_all (\<lambda>a. allocation a = 0) p \<Longrightarrow> sum_list vs = 0"
  by (induction p vs rule: list_all2_induct) (simp_all add: weight_ok_def)

lemma weights_zero_of_sum:
  assumes "list_all (\<lambda>a. 0 \<le> allocation a) p" "sum_list (map allocation p) \<le> 0"
  shows "list_all (\<lambda>a. allocation a = 0) p"
proof -
  have nn: "\<forall>x\<in>set (map allocation p). 0 \<le> x" using assms(1) by (simp add: list_all_iff)
  have "0 \<le> sum_list (map allocation p)" by (rule sum_list_nonneg) (use nn in blast)
  with assms(2) have "sum_list (map allocation p) = 0" by simp
  then have "\<forall>x\<in>set (map allocation p). x = 0"
    using sum_list_nonneg_eq_0_iff [of "map allocation p"] nn by blast
  then show ?thesis by (simp add: list_all_iff)
qed

lemma sum_concentrated:
  "list_all2 weight_ok p vs \<Longrightarrow> list_all (\<lambda>a. 0 \<le> allocation a) p \<Longrightarrow>
   (a, v) \<in> set (zip p vs) \<Longrightarrow> sum_list (map allocation p) \<le> allocation a \<Longrightarrow>
   sum_list vs = v"
proof (induction p vs rule: list_all2_induct)
  case Nil
  then show ?case by simp
next
  case (Cons a' p v' vs)
  from Cons.prems(1) have wp: "list_all (\<lambda>a. 0 \<le> allocation a) p" and a0: "0 \<le> allocation a'"
    by simp_all
  from Cons.prems(2) consider "a = a'" "v = v'" | "(a, v) \<in> set (zip p vs)" by auto
  then show ?case
  proof cases
    case 1
    with Cons.prems(3) have "sum_list (map allocation p) \<le> 0" by simp
    from zero_weights_zero_sum [OF Cons.hyps(2) weights_zero_of_sum [OF wp this]]
    show ?thesis using 1 by simp
  next
    case 2
    then have "a \<in> set p" by (rule set_zip_leftD)
    then have "allocation a \<in> set (map allocation p)" by simp
    moreover have "list_all (\<lambda>x. 0 \<le> x) (map allocation p)" using wp by (simp add: list_all_iff)
    ultimately have le: "allocation a \<le> sum_list (map allocation p)"
      by (rule member_le_sum_list_real [rotated])
    with Cons.prems(3) a0 have z: "allocation a' = 0" and s: "sum_list (map allocation p) \<le> allocation a"
      by simp_all
    from z Cons.hyps(1) have "v' = 0" by (simp add: weight_ok_def)
    with Cons.IH [OF wp 2 s] show ?thesis by simp
  qed
qed

lemma assets_Finite:
  "list_all2 asset_ok p vs \<Longrightarrow> \<exists>xs. vs = map Finite xs \<and> list_all2 weight_ok p xs"
proof (induction p vs rule: list_all2_induct)
  case Nil
  then show ?case by simp
next
  case (Cons a p v vs)
  from Cons.hyps(1) obtain x where v: "v = Finite x" "weight_ok a x"
    by (cases v) (simp_all add: asset_ok_def)
  from Cons.IH obtain xs where "vs = map Finite xs" "list_all2 weight_ok p xs" by blast
  with v have "v # vs = map Finite (x # xs) \<and> list_all2 weight_ok (a # p) (x # xs)" by simp
  then show ?case by (rule exI)
qed

lemma Finite_assets: "list_all2 weight_ok p xs \<Longrightarrow> list_all2 asset_ok p (map Finite xs)"
  by (simp add: list_all2_map2 asset_ok_def)

lemma apply_returns_ok:
  "list_all2 asset_ok p vs \<Longrightarrow> list_all (list_all (\<lambda>d. 0 \<le> value d)) vals \<Longrightarrow>
   apply_returns vals vs cs = Inr (vs', cs') \<Longrightarrow> list_all2 asset_ok p vs'"
proof (induction p vs arbitrary: vals cs vs' cs' rule: list_all2_induct)
  case Nil
  then show ?case by simp
next
  case (Cons a p v vs)
  from Cons.prems(2) obtain s vals0 c cs0 where vals: "vals = s # vals0" and cs: "cs = c # cs0"
    by (cases vals; cases cs) simp_all
  from Cons.prems(2) obtain vs1 cs1 where
    c: "c < length s" and r: "apply_returns vals0 vs cs0 = Inr (vs1, cs1)"
    and e: "vs' = fmul v (Finite (value (s ! c))) # vs1"
    by (auto simp: vals cs vector_at_def split: if_splits sum.splits)
  from Cons.prems(1) have nn: "list_all (\<lambda>d. 0 \<le> value d) s"
    and nn0: "list_all (list_all (\<lambda>d. 0 \<le> value d)) vals0" by (simp_all add: vals)
  from nn c have "0 \<le> value (s ! c)" by (simp add: list_all_length)
  with Cons.hyps(1) have "asset_ok a (fmul v (Finite (value (s ! c))))"
    by (cases v) (simp_all add: asset_ok_def weight_ok_def)
  moreover have "list_all2 asset_ok p vs1" by (rule Cons.IH [OF nn0 r])
  ultimately show ?case by (simp add: e)
qed

lemma withdraw_value_ok:
  assumes "weight_ok a x" "0 \<le> tv" "tv = 0 \<longrightarrow> x = 0"
  shows "asset_ok a (withdraw_value amount (Finite tv) (Finite x))"
  using assms
  by (auto simp: withdraw_value_def asset_ok_def weight_ok_def fsub_def fmax_def)

lemma withdraw_ok:
  assumes "list_all2 asset_ok p vs"
  shows "list_all2 asset_ok p (withdraw amount vs)"
proof -
  from assets_Finite [OF assms] obtain xs where
    vs: "vs = map Finite xs" and W: "list_all2 weight_ok p xs" by blast
  have T: "accumulate vs (Finite 0) = Finite (sum_list xs)" by (simp add: vs accumulate_Finite)
  have "asset_ok a (withdraw_value amount (Finite (sum_list xs)) (Finite x))"
    if "(a, x) \<in> set (zip p xs)" for a x
  proof (rule withdraw_value_ok)
    from that W show "weight_ok a x" by (auto simp: list_all2_iff)
    show "0 \<le> sum_list xs" by (rule weight_ok_sum_nonneg [OF W])
    from that have "x \<in> set xs" by (rule set_zip_rightD)
    then show "sum_list xs = 0 \<longrightarrow> x = 0" using weight_ok_sum_zero [OF W] by blast
  qed
  then have "list_all2 (\<lambda>a x. asset_ok a (withdraw_value amount (Finite (sum_list xs)) (Finite x))) p xs"
    using list_all2_lengthD [OF W] by (auto simp: list_all2_iff)
  then show ?thesis
    by (simp add: withdraw_def Let_def vs accumulate_Finite list_all2_map2)
qed

lemma init_assets_ok:
  "list_all (\<lambda>a. 0 \<le> allocation a) p \<Longrightarrow> init_assets p vals cy cm = Inr (vs, cs) \<Longrightarrow>
   list_all2 asset_ok p vs"
proof (induction p arbitrary: vals vs cs)
  case Nil
  then show ?case by simp
next
  case (Cons a p)
  from Cons.prems(2) obtain s vals0 where vals: "vals = s # vals0" by (cases vals) simp_all
  from Cons.prems(2) obtain c vs1 cs1 where
    r: "init_assets p vals0 cy cm = Inr (vs1, cs1)"
    and e: "vs = Finite (start_value * (allocation a / 100)) # vs1"
    by (auto simp: vals split: option.splits sum.splits)
  have "list_all2 asset_ok p vs1" using Cons.IH [OF _ r] Cons.prems(1) by simp
  moreover have "asset_ok a (Finite (start_value * (allocation a / 100)))"
    using Cons.prems(1) by (simp add: asset_ok_def weight_ok_def start_value_def)
  ultimately show ?case by (simp add: e)
qed

lemma trial_init_ok:
  assumes wp: "list_all (\<lambda>a. 0 \<le> allocation a) p"
    and i: "trial_init p infl vals wr cy cm = Inr st"
  shows "list_all2 asset_ok p (current_values st)"
proof -
  from i obtain vs cs where a: "init_assets p vals cy cm = Inr (vs, cs)" and "current_values st = vs"
    by (auto simp: trial_init_def split: sum.splits option.splits)
  with init_assets_ok [OF wp a] show ?thesis by simp
qed

lemma set_to_target_ok:
  assumes wp: "list_all (\<lambda>a. 0 \<le> allocation a) p" and T: "0 \<le> T"
  shows "list_all2 asset_ok p (set_to_target p (Finite T) vs)"
proof -
  have "asset_ok a (Finite (T * (allocation a / 100)))" if "a \<in> set p" for a
  proof -
    from wp that have "0 \<le> allocation a" by (simp add: list_all_iff)
    with T show ?thesis by (simp add: asset_ok_def weight_ok_def)
  qed
  then show ?thesis
    by (simp add: set_to_target_def list_all2_map2 list_all2_same)
qed

lemma accumulate_pay_fees_Finite:
  "accumulate (pay_fees cost (map Finite xs)) (Finite 0) = Finite (sum_list xs * (1 - cost / 100))"
proof -
  have "pay_fees cost (map Finite xs) = map Finite (map (\<lambda>x. x * (1 - cost / 100)) xs)"
    by (simp add: pay_fees_def)
  then show ?thesis
    by (simp only: accumulate_Finite) (simp add: sum_list_mult_const)
qed

lemma monthly_rebalance_ok:
  assumes wp: "list_all (\<lambda>a. 0 \<le> allocation a) p" and V: "list_all2 asset_ok p vs"
  shows "list_all2 asset_ok p (monthly_rebalance p vs)"
proof -
  from assets_Finite [OF V] obtain xs where
    vs: "vs = map Finite xs" and W: "list_all2 weight_ok p xs" by blast
  have "0 \<le> sum_list xs * (1 - monthly_rebalancing_cost / 100)"
    using weight_ok_sum_nonneg [OF W] by (simp add: monthly_rebalancing_cost_def)
  from set_to_target_ok [OF wp this] show ?thesis
    by (simp add: monthly_rebalance_def Let_def vs accumulate_pay_fees_Finite)
qed

lemma yearly_rebalance_ok:
  assumes wp: "list_all (\<lambda>a. 0 \<le> allocation a) p" and V: "list_all2 asset_ok p vs"
  shows "list_all2 asset_ok p (yearly_rebalance p vs)"
proof -
  from assets_Finite [OF V] obtain xs where
    vs: "vs = map Finite xs" and W: "list_all2 weight_ok p xs" by blast
  have "0 \<le> sum_list xs * (1 - yearly_rebalancing_cost / 100)"
    using weight_ok_sum_nonneg [OF W] by (simp add: yearly_rebalancing_cost_def)
  from set_to_target_ok [OF wp this] show ?thesis
    by (simp add: yearly_rebalance_def Let_def vs accumulate_pay_fees_Finite)
qed

lemma threshold_rebalance_ok:
  assumes wp: "list_all (\<lambda>a. 0 \<le> allocation a) p" and V: "list_all2 asset_ok p vs"
  shows "list_all2 asset_ok p (threshold_rebalance p t vs)"
proof -
  from assets_Finite [OF V] obtain xs where
    vs: "vs = map Finite xs" and W: "list_all2 weight_ok p xs" by blast
  have T: "accumulate vs (Finite 0) = Finite (sum_list xs)" by (simp add: vs accumulate_Finite)
  from set_to_target_ok [OF wp weight_ok_sum_nonneg [OF W]] V show ?thesis
    by (simp add: threshold_rebalance_def Let_def T)
qed

lemma step_ok:
  assumes wp: "list_all (\<lambda>a. 0 \<le> allocation a) p"
    and nn: "list_all (list_all (\<lambda>d. 0 \<le> value d)) vals"
    and V: "list_all2 asset_ok p (current_values st)"
    and s: "step p infl vals monthly_wr rebalance t e st = Inr st'"
  shows "list_all2 asset_ok p (current_values st')"
proof (cases e)
  case (Month y m)
  with s have ms: "month_step p infl vals monthly_wr rebalance t st = Inr st'" by simp
  then obtain vs1 cs1 where r: "apply_returns vals (current_values st) (returns st) = Inr (vs1, cs1)"
    by (auto simp: month_step_def split: sum.splits)
  have V1: "list_all2 asset_ok p vs1" by (rule apply_returns_ok [OF V nn r])
  define vs2 where "vs2 = (if rebalance = MONTHLY then monthly_rebalance p vs1 else vs1)"
  define vs3 where "vs3 = (if rebalance = THRESHOLD then threshold_rebalance p t vs2 else vs2)"
  have V2: "list_all2 asset_ok p vs2"
    using V1 monthly_rebalance_ok [OF wp V1] by (simp add: vs2_def)
  have V3: "list_all2 asset_ok p vs3"
    using V2 threshold_rebalance_ok [OF wp V2] by (simp add: vs3_def)
  from ms r have "\<exists>w. current_values st' = (if monthly_wr then withdraw w vs3 else vs3)"
    unfolding vs3_def vs2_def by (auto simp: month_step_def Let_def split: sum.splits)
  then show ?thesis using V3 withdraw_ok [OF V3] by auto
next
  case (YearEnd y)
  define vs1 where "vs1 = (if rebalance = YEARLY then yearly_rebalance p (current_values st)
      else current_values st)"
  have V1: "list_all2 asset_ok p vs1"
    using V yearly_rebalance_ok [OF wp V] by (simp add: vs1_def)
  from YearEnd s have "current_values st' =
      (if \<not> monthly_wr then withdraw (withdrawal st) vs1 else vs1)"
    unfolding vs1_def by (auto simp: year_step_def Let_def)
  then show ?thesis using V1 withdraw_ok [OF V1] by simp
qed

lemma run_ok:
  assumes wp: "list_all (\<lambda>a. 0 \<le> allocation a) p"
    and nn: "list_all (list_all (\<lambda>d. 0 \<le> value d)) vals"
  shows "list_all2 asset_ok p (current_values st) \<Longrightarrow>
    fold_err (step p infl vals monthly_wr rebalance t) evs st = Inr st' \<Longrightarrow>
    list_all2 asset_ok p (current_values st')"
proof (induction evs arbitrary: st)
  case Nil
  then show ?case by simp
next
  case (Cons e evs)
  from Cons.prems(2) obtain st1 where
    s: "step p infl vals monthly_wr rebalance t e st = Inr st1"
    and r: "fold_err (step p infl vals monthly_wr rebalance t) evs st1 = Inr st'"
    by (auto split: sum.splits)
  from Cons.IH [OF step_ok [OF wp nn Cons.prems(1) s] r] show ?case .
qed

lemma asset_ok_not_below:
  "list_all2 asset_ok p vs \<Longrightarrow> list_all (\<lambda>v. \<not> fless v (Finite 0)) vs"
proof -
  assume V: "list_all2 asset_ok p vs"
  from assets_Finite [OF V] obtain xs where
    vs: "vs = map Finite xs" and W: "list_all2 weight_ok p xs" by blast
  have "\<not> x < 0" if "x \<in> set xs" for x using weight_ok_nonneg [OF W that] by simp
  then show ?thesis by (simp add: vs list_all_iff)
qed

section \<open>Properties: withdrawals stop at zero\<close>

lemma withdraw_not_negative: "list_all not_negative (withdraw amount vs)"
  by (simp add: withdraw_def Let_def list_all_iff withdraw_value_def not_negative_fmax)

lemma month_step_floor:
  assumes "month_step p infl vals True rebalance threshold st = Inr st'"
  shows "list_all not_negative (current_values st')"
proof -
  from assms obtain vs w where "current_values st' = withdraw w vs"
    by (auto simp: month_step_def Let_def split: sum.splits)
  then show ?thesis by (simp add: withdraw_not_negative)
qed

lemma year_step_floor: "list_all not_negative (current_values (year_step p False rebalance st))"
  by (simp add: year_step_def Let_def withdraw_not_negative)

lemma year_step_idle:
  "rebalance \<noteq> YEARLY \<Longrightarrow> current_values (year_step p True rebalance st) = current_values st"
  by (simp add: year_step_def)

lemma trial_events_last:
  "\<exists>evs. trial_events cy cm months = evs @ [YearEnd (trial_end_year cy cm months)]"
proof -
  let ?ey = "trial_end_year cy cm months"
  have "cy \<le> ?ey" by (simp add: trial_end_year_def)
  then have "[cy ..< Suc ?ey] = [cy ..< ?ey] @ [?ey]" by simp
  then show ?thesis
    by (simp add: trial_events_def Let_def year_events_def del: upt_Suc)
qed

lemma run_floor_monthly:
  assumes r: "rebalance \<noteq> YEARLY"
  shows "fold_err (step p infl vals True rebalance threshold) evs st = Inr st' \<Longrightarrow>
    list_all not_negative (current_values st) \<or> filter is_Month evs \<noteq> [] \<Longrightarrow>
    list_all not_negative (current_values st')"
proof (induction evs arbitrary: st)
  case Nil
  then show ?case by simp
next
  case (Cons e evs)
  show ?case
  proof (cases e)
    case (Month y m)
    with Cons.prems(1) obtain st1 where
      s: "month_step p infl vals True rebalance threshold st = Inr st1"
      and f: "fold_err (step p infl vals True rebalance threshold) evs st1 = Inr st'"
      by (auto split: sum.splits)
    from month_step_floor [OF s] have "list_all not_negative (current_values st1)" .
    with Cons.IH [OF f] show ?thesis by simp
  next
    case (YearEnd y)
    with Cons.prems(1) have
      f: "fold_err (step p infl vals True rebalance threshold) evs (year_step p True rebalance st) = Inr st'"
      by simp
    from Cons.prems(2) YearEnd have
      "list_all not_negative (current_values (year_step p True rebalance st)) \<or> filter is_Month evs \<noteq> []"
      by (simp add: year_step_idle [OF r])
    with Cons.IH [OF f] show ?thesis by simp
  qed
qed

lemma run_floor_annual:
  assumes "fold_err (step p infl vals False rebalance threshold) (evs @ [YearEnd y]) st = Inr st'"
  shows "list_all not_negative (current_values st')"
proof -
  from assms obtain st1 where "st' = year_step p False rebalance st1"
    by (auto simp: fold_err_append split: sum.splits)
  then show ?thesis by (simp add: year_step_floor)
qed

lemma trial_floor:
  assumes y: "1 \<le> years" and m: "1 \<le> cm" "cm \<le> 12"
    and mode: "\<not> monthly_wr \<or> rebalance \<noteq> YEARLY"
    and t: "trial p infl vals years wr monthly_wr rebalance threshold cy cm = Inr final_value"
  shows "not_negative final_value"
proof -
  from t obtain st st' where
    r: "fold_err (step p infl vals monthly_wr rebalance threshold)
              (trial_events cy cm (years * 12)) st = Inr st'"
    and f: "final_value = accumulate (current_values st') (Finite 0)"
    by (auto simp: trial_def split: sum.splits)
  have "list_all not_negative (current_values st')"
  proof (cases monthly_wr)
    case True
    with mode have ry: "rebalance \<noteq> YEARLY" by simp
    have "length (filter is_Month (trial_events cy cm (years * 12))) = years * 12"
      by (rule trial_months_length [OF y m])
    with y have ne: "filter is_Month (trial_events cy cm (years * 12)) \<noteq> []" by auto
    from r True have r': "fold_err (step p infl vals True rebalance threshold)
              (trial_events cy cm (years * 12)) st = Inr st'" by simp
    show ?thesis by (rule run_floor_monthly [OF ry r']) (simp add: ne)
  next
    case False
    from trial_events_last [of cy cm "years * 12"] obtain evs where
      "trial_events cy cm (years * 12) = evs @ [YearEnd (trial_end_year cy cm (years * 12))]" by blast
    with r False have "fold_err (step p infl vals False rebalance threshold)
        (evs @ [YearEnd (trial_end_year cy cm (years * 12))]) st = Inr st'" by simp
    then show ?thesis by (rule run_floor_annual)
  qed
  then show ?thesis unfolding f
    by (rule not_negative_accumulate) (simp add: not_negative_def)
qed

text \<open>
  C8, as stated, fails: nothing keeps a value from going below zero when the returns of
  a month are applied or when a rebalancing sets the targets. A trial on a series with
  the factor \<open>- 1 / 2\<close> holds \<open>- 500\<close> after its first month in annual mode. With the
  weights 100 and \<open>- 300\<close>, flat series, monthly mode, a rate of 0 and yearly rebalancing,
  the first withdrawal lifts the second asset from \<open>- 3000\<close> to 0, the rebalancing at the
  end of the year sets it to \<open>- 2999.7\<close>, and the terminal value is \<open>- 1999.8\<close>.
\<close>

theorem value_negative_after_returns:
  "trial_init one_asset (series_from 2000 (\<lambda>k. 1) 24) [series_from 2000 (\<lambda>k. - 1 / 2) 24]
      4 2000 1 =
     Inr \<lparr>current_values = [Finite 1000], returns = [1], inflation = 1, withdrawal = 40\<rparr>
   \<and> month_step one_asset (series_from 2000 (\<lambda>k. 1) 24) [series_from 2000 (\<lambda>k. - 1 / 2) 24]
        False NONE 0
        \<lparr>current_values = [Finite 1000], returns = [1], inflation = 1, withdrawal = 40\<rparr> =
     Inr \<lparr>current_values = [Finite (- 500)], returns = [2], inflation = 2, withdrawal = 40\<rparr>
   \<and> \<not> not_negative (Finite (- 500))
   \<and> yearly_rebalance short_bonds [Finite 1000, Finite 0] = [Finite 999.9, Finite (- 2999.7)]
   \<and> trial short_bonds (series_from 2000 (\<lambda>k. 1) 24)
        [series_from 2000 (\<lambda>k. 1) 24, series_from 2000 (\<lambda>k. 1) 24]
        1 0 True YEARLY 0 2000 1 = Inr (Finite (- 1999.8))
   \<and> \<not> not_negative (Finite (- 1999.8))"
proof -
  let ?S = "series_from 2000 (\<lambda>k. 1) 24"
  let ?st = "\<lparr>current_values = [Finite 1000, Finite (- 3000)], returns = [1, 1], inflation = 1,
      withdrawal = 0\<rparr>"
  have a: "trial_init one_asset ?S [series_from 2000 (\<lambda>k. - 1 / 2) 24] 4 2000 1 =
     Inr \<lparr>current_values = [Finite 1000], returns = [1], inflation = 1, withdrawal = 40\<rparr>"
    using trial_init_one_asset [of 2000 2000 1 24 "\<lambda>k. 1" "\<lambda>k. - 1 / 2" 4]
    by (simp add: start_value_def)
  have b: "month_step one_asset ?S [series_from 2000 (\<lambda>k. - 1 / 2) 24] False NONE 0
        \<lparr>current_values = [Finite 1000], returns = [1], inflation = 1, withdrawal = 40\<rparr> =
     Inr \<lparr>current_values = [Finite (- 500)], returns = [2], inflation = 2, withdrawal = 40\<rparr>"
    by (simp add: month_step_def one_asset_def vector_at_series_from Let_def)
  have c: "\<not> not_negative (Finite (- 500))" by (simp add: not_negative_def)
  have d: "yearly_rebalance short_bonds [Finite 1000, Finite 0] = [Finite 999.9, Finite (- 2999.7)]"
    by (simp add: yearly_rebalance_def Let_def pay_fees_def set_to_target_def short_bonds_def
        yearly_rebalancing_cost_def)
  have i: "trial_init short_bonds ?S [?S, ?S] 0 2000 1 = Inr ?st"
    using trial_init_two [of 2000 2000 1 24 _ _ "\<lambda>k. 1" "\<lambda>k. 1" "\<lambda>k. 1" 0]
    by (simp add: start_value_def short_bonds_def)
  have w1: "withdraw 0 [Finite 1000, Finite (- 3000)] = [Finite 1000, Finite 0]"
    by (simp add: withdraw_def withdraw_value_def fsub_def fmax_def)
  have w2: "withdraw 0 [Finite 1000, Finite 0] = [Finite 1000, Finite 0]"
    by (simp add: withdraw_def withdraw_value_def fsub_def fmax_def)
  have r: "fold_err (step short_bonds ?S [?S, ?S] True YEARLY 0) (trial_events 2000 1 (1 * 12)) ?st =
      Inr \<lparr>current_values = [Finite 999.9, Finite (- 2999.7)], returns = [13, 13],
           inflation = 13, withdrawal = 0\<rparr>"
    unfolding trial_events_one_year
    by (simp add: month_step_def year_step_def vector_at_series_from Let_def w1 w2 d)
  have e: "trial short_bonds ?S [?S, ?S] 1 0 True YEARLY 0 2000 1 = Inr (Finite (- 1999.8))"
    by (simp only: trial_def i r sum.case) simp
  have f: "\<not> not_negative (Finite (- 1999.8))" by (simp add: not_negative_def)
  show ?thesis using a b c d e f by (intro conjI)
qed

text \<open>
  C8, amended. Every withdrawal, monthly or annual, stops each asset at zero on its own:
  right after it every asset value is at least zero, and neither below zero nor a NaN,
  whatever the values, the total and the amount were. So the values are at least zero at
  the end of every month in monthly mode and at the end of every year in annual mode, and
  the terminal value of a trial is at least zero in annual mode, and in monthly mode
  unless the rebalancing is yearly. If moreover no weight and no return factor is
  negative, no asset value is below zero in any state a trial reaches, after the returns
  of the next month are applied, or after a monthly, threshold or yearly rebalancing.
\<close>

theorem withdrawals_floor_at_zero:
  "list_all not_negative (withdraw amount vs)
   \<and> (month_step portfolio inflation_data vals True rebalance threshold st = Inr st' \<longrightarrow>
        list_all not_negative (current_values st'))
   \<and> list_all not_negative (current_values (year_step portfolio False rebalance st))
   \<and> (1 \<le> years \<longrightarrow> 1 \<le> current_month \<longrightarrow> current_month \<le> 12 \<longrightarrow>
        (\<not> monthly_wr \<or> rebalance \<noteq> YEARLY) \<longrightarrow>
        trial portfolio inflation_data vals years wr monthly_wr rebalance threshold
          current_year current_month = Inr final_value \<longrightarrow>
        not_negative final_value)
   \<and> (list_all (\<lambda>a. 0 \<le> allocation a) portfolio \<longrightarrow>
        list_all (list_all (\<lambda>d. 0 \<le> value d)) vals \<longrightarrow>
        trial_init portfolio inflation_data vals wr current_year current_month = Inr st0 \<longrightarrow>
        fold_err (step portfolio inflation_data vals monthly_wr rebalance threshold) evs st0
          = Inr reached \<longrightarrow>
        list_all (\<lambda>v. \<not> fless v (Finite 0)) (current_values reached)
        \<and> list_all (\<lambda>v. \<not> fless v (Finite 0))
            (yearly_rebalance portfolio (current_values reached))
        \<and> (\<forall>vs1 cs1.
              apply_returns vals (current_values reached) (returns reached) = Inr (vs1, cs1) \<longrightarrow>
              list_all (\<lambda>v. \<not> fless v (Finite 0)) vs1
              \<and> list_all (\<lambda>v. \<not> fless v (Finite 0)) (monthly_rebalance portfolio vs1)
              \<and> list_all (\<lambda>v. \<not> fless v (Finite 0))
                  (threshold_rebalance portfolio threshold vs1)))"
proof (intro conjI impI allI)
  show "list_all not_negative (withdraw amount vs)" by (rule withdraw_not_negative)
  show "list_all not_negative (current_values (year_step portfolio False rebalance st))"
    by (rule year_step_floor)
next
  assume "month_step portfolio inflation_data vals True rebalance threshold st = Inr st'"
  then show "list_all not_negative (current_values st')" by (rule month_step_floor)
next
  assume "1 \<le> years" "1 \<le> current_month" "current_month \<le> 12"
    "\<not> monthly_wr \<or> rebalance \<noteq> YEARLY"
    "trial portfolio inflation_data vals years wr monthly_wr rebalance threshold
          current_year current_month = Inr final_value"
  then show "not_negative final_value" by (rule trial_floor)
next
  assume wp: "list_all (\<lambda>a. 0 \<le> allocation a) portfolio"
    and nn: "list_all (list_all (\<lambda>d. 0 \<le> value d)) vals"
    and i: "trial_init portfolio inflation_data vals wr current_year current_month = Inr st0"
    and r: "fold_err (step portfolio inflation_data vals monthly_wr rebalance threshold) evs st0
          = Inr reached"
  have V: "list_all2 asset_ok portfolio (current_values reached)"
    by (rule run_ok [OF wp nn trial_init_ok [OF wp i] r])
  show "list_all (\<lambda>v. \<not> fless v (Finite 0)) (current_values reached)"
    by (rule asset_ok_not_below [OF V])
  show "list_all (\<lambda>v. \<not> fless v (Finite 0)) (yearly_rebalance portfolio (current_values reached))"
    by (rule asset_ok_not_below [OF yearly_rebalance_ok [OF wp V]])
  fix vs1 cs1
  assume ar: "apply_returns vals (current_values reached) (returns reached) = Inr (vs1, cs1)"
  have V1: "list_all2 asset_ok portfolio vs1" by (rule apply_returns_ok [OF V nn ar])
  show "list_all (\<lambda>v. \<not> fless v (Finite 0)) vs1" by (rule asset_ok_not_below [OF V1])
  show "list_all (\<lambda>v. \<not> fless v (Finite 0)) (monthly_rebalance portfolio vs1)"
    by (rule asset_ok_not_below [OF monthly_rebalance_ok [OF wp V1]])
  show "list_all (\<lambda>v. \<not> fless v (Finite 0)) (threshold_rebalance portfolio threshold vs1)"
    by (rule asset_ok_not_below [OF threshold_rebalance_ok [OF wp V1]])
qed

lemma flat_year:
  "fold_err (step one_asset (series_from 2000 (\<lambda>k. 1) 24) [series_from 2000 (\<lambda>k. 1) 24]
       False NONE 0) (trial_events 2000 1 (1 * 12))
     \<lparr>current_values = [Finite 1000], returns = [1], inflation = 1, withdrawal = w\<rparr> =
   Inr \<lparr>current_values = withdraw w [Finite 1000], returns = [13], inflation = 13, withdrawal = w\<rparr>"
proof -
  have e: "trial_events 2000 1 (1 * 12) = map (Month 2000) [1 ..< 13] @ [YearEnd 2000]"
    by (simp add: trial_events_def trial_end_year_def trial_end_month_def year_events_def
        size_sub_def del: upt_Suc)
  show ?thesis
    unfolding e year_of_months
    by (simp add: month_step_def year_step_def one_asset_def vector_at_series_from Let_def)
qed

text \<open>
  A one-asset trial on flat series with a rate of 200 percent in annual mode: the
  withdrawal of 2000 at the end of the year takes the asset from 1000 to the floor, and
  the terminal value is zero. In monthly mode the first withdrawal leaves 2500/3.
\<close>

theorem withdrawals_floor_at_zero_witness:
  "withdraw 2000 [Finite 1000] = [Finite 0]
   \<and> list_all not_negative (withdraw 2000 [Finite 1000])
   \<and> month_step one_asset (series_from 2000 (\<lambda>k. 1) 24) [series_from 2000 (\<lambda>k. 1) 24]
        True NONE 0
        \<lparr>current_values = [Finite 1000], returns = [1], inflation = 1, withdrawal = 2000\<rparr> =
      Inr \<lparr>current_values = [Finite (2500 / 3)], returns = [2], inflation = 2,
           withdrawal = 2000\<rparr>
   \<and> list_all not_negative [Finite (2500 / 3)]
   \<and> list_all not_negative
        (current_values (year_step one_asset False NONE
           \<lparr>current_values = [Finite 1000], returns = [1], inflation = 1, withdrawal = 2000\<rparr>))
   \<and> trial one_asset (series_from 2000 (\<lambda>k. 1) 24) [series_from 2000 (\<lambda>k. 1) 24]
        1 200 False NONE 0 2000 1 = Inr (Finite 0)
   \<and> not_negative (Finite 0)
   \<and> fold_err (step one_asset (series_from 2000 (\<lambda>k. 1) 24) [series_from 2000 (\<lambda>k. 1) 24]
        False NONE 0) (trial_events 2000 1 (1 * 12))
        \<lparr>current_values = [Finite 1000], returns = [1], inflation = 1, withdrawal = 2000\<rparr> =
      Inr \<lparr>current_values = [Finite 0], returns = [13], inflation = 13, withdrawal = 2000\<rparr>
   \<and> list_all (\<lambda>v. \<not> fless v (Finite 0)) [Finite 0]
   \<and> list_all (\<lambda>v. \<not> fless v (Finite 0)) (yearly_rebalance one_asset [Finite 0])"
proof -
  let ?S = "series_from 2000 (\<lambda>k. 1) 24"
  let ?st = "\<lparr>current_values = [Finite 1000], returns = [1], inflation = 1, withdrawal = 2000\<rparr>"
  let ?st' = "\<lparr>current_values = [Finite (2500 / 3)], returns = [2], inflation = 2,
      withdrawal = 2000\<rparr>"
  let ?reached = "\<lparr>current_values = [Finite 0], returns = [13], inflation = 13,
      withdrawal = 2000\<rparr>"
  have wp: "list_all (\<lambda>a. 0 \<le> allocation a) one_asset" by (simp add: one_asset_def)
  have nn: "list_all (list_all (\<lambda>d. 0 \<le> value d)) [?S]" by (simp add: series_from_nonneg)
  have i: "trial_init one_asset ?S [?S] 200 2000 1 = Inr ?st"
    using trial_init_one_asset [of 2000 2000 1 24 "\<lambda>k. 1" "\<lambda>k. 1" 200]
    by (simp add: start_value_def)
  have w: "withdraw 2000 [Finite 1000] = [Finite 0]"
    by (simp add: withdraw_def withdraw_value_def fsub_def fmax_def)
  have m: "month_step one_asset ?S [?S] True NONE 0 ?st = Inr ?st'"
    by (simp add: month_step_def one_asset_def vector_at_series_from Let_def
        withdraw_def withdraw_value_def fsub_def fmax_def)
  have r: "fold_err (step one_asset ?S [?S] False NONE 0) (trial_events 2000 1 (1 * 12)) ?st =
      Inr ?reached"
    by (simp only: flat_year w)
  have t: "trial one_asset ?S [?S] 1 200 False NONE 0 2000 1 = Inr (Finite 0)"
    by (simp only: trial_def i r sum.case) simp
  note T = withdrawals_floor_at_zero [where amount = 2000 and vs = "[Finite 1000]"
      and portfolio = one_asset and inflation_data = ?S and vals = "[?S]" and years = 1
      and wr = 200 and monthly_wr = False and rebalance = NONE and threshold = 0
      and current_year = 2000 and current_month = 1 and final_value = "Finite 0"
      and st = ?st and st' = ?st' and ?st0.0 = ?st
      and evs = "trial_events 2000 1 (1 * 12)" and reached = ?reached]
  from T have a: "list_all not_negative (withdraw 2000 [Finite 1000])" by (rule conjunct1)
  from T m have b: "list_all not_negative [Finite (2500 / 3)]" by simp
  from T have c: "list_all not_negative (current_values (year_step one_asset False NONE ?st))"
    by blast
  from T t have d: "not_negative (Finite 0)" by simp
  from T wp nn i r have e: "list_all (\<lambda>v. \<not> fless v (Finite 0)) (current_values ?reached)
      \<and> list_all (\<lambda>v. \<not> fless v (Finite 0)) (yearly_rebalance one_asset (current_values ?reached))"
    by blast
  then have e1: "list_all (\<lambda>v. \<not> fless v (Finite 0)) [Finite 0]"
    and e2: "list_all (\<lambda>v. \<not> fless v (Finite 0)) (yearly_rebalance one_asset [Finite 0])"
    by simp_all
  show ?thesis using w a m b c t d r e1 e2 by (intro conjI)
qed

section \<open>Properties: the simulation and the trial counter\<close>

text \<open>
  C9. The result of a simulation does not depend on the process-wide counter: started
  from any two counter values with the same inputs, it fails in the same way or returns
  the same \<open>results\<close>, and the counter never goes down: it grows by the number of trials.
\<close>

theorem simulation_deterministic:
  "(case simulation c portfolio inflation_data vals years wr start_year end_year monthly_wr
           rebalance threshold of
      Inl e \<Rightarrow>
        simulation c' portfolio inflation_data vals years wr start_year end_year monthly_wr
          rebalance threshold = Inl e
    | Inr (res, n) \<Rightarrow>
        c \<le> n \<and> simulations_ran c \<le> simulations_ran n
        \<and> simulation c' portfolio inflation_data vals years wr start_year end_year monthly_wr
            rebalance threshold = Inr (res, c' + (n - c)))"
  by (simp add: simulation_def simulations_ran_def split: sum.splits prod.splits)

section \<open>Properties: a threshold of one\<close>

text \<open>
  With weights that are zero or at least one percent and sum to 100, every weight is
  0, 100 or between 1 and 99.
\<close>

lemma small_sum_zero:
  "list_all (\<lambda>a. allocation a = 0 \<or> 1 \<le> allocation a) q \<Longrightarrow>
   sum_list (map allocation q) < 1 \<Longrightarrow> sum_list (map allocation q) = 0"
proof (induction q)
  case Nil
  then show ?case by simp
next
  case (Cons a q)
  have nn: "0 \<le> sum_list (map allocation q)"
    by (rule sum_list_nonneg) (use Cons.prems(1) in \<open>auto simp: list_all_iff\<close>)
  from Cons.prems(1) have a: "allocation a = 0 \<or> 1 \<le> allocation a" by simp
  from Cons.prems(2) nn have "allocation a < 1" by simp
  with a have a0: "allocation a = 0" by auto
  with Cons.prems have "sum_list (map allocation q) = 0" by (intro Cons.IH) simp_all
  with a0 show ?case by simp
qed

lemma weight_range:
  assumes wp: "list_all (\<lambda>a. allocation a = 0 \<or> 1 \<le> allocation a) p"
    and total: "sum_list (map allocation p) = 100"
    and a: "a \<in> set p"
  shows "allocation a = 0 \<or> allocation a = 100 \<or> (1 \<le> allocation a \<and> allocation a \<le> 99)"
proof -
  from a obtain p1 p2 where p: "p = p1 @ a # p2" by (meson split_list)
  let ?q = "p1 @ p2"
  have q: "list_all (\<lambda>a. allocation a = 0 \<or> 1 \<le> allocation a) ?q" using wp by (simp add: p)
  have s: "allocation a + sum_list (map allocation ?q) = 100" using total by (simp add: p)
  have "0 \<le> allocation b" if "b \<in> set ?q" for b
  proof -
    from q that have "allocation b = 0 \<or> 1 \<le> allocation b" unfolding list_all_iff by blast
    then show ?thesis by auto
  qed
  then have nn: "0 \<le> sum_list (map allocation ?q)"
    by (intro sum_list_nonneg) auto
  from wp a have a01: "allocation a = 0 \<or> 1 \<le> allocation a" by (simp add: list_all_iff)
  show ?thesis
  proof (cases "sum_list (map allocation ?q) < 1")
    case True
    from small_sum_zero [OF q True] s show ?thesis by simp
  next
    case False
    with s a01 show ?thesis by auto
  qed
qed

text \<open>
  The deviation test in exact arithmetic: under these weights and with no negative
  return factor no deviation is above 0.99, so a threshold above 0.99 is never reached.
\<close>

lemma threshold_no_deviation:
  assumes wp: "list_all (\<lambda>a. allocation a = 0 \<or> 1 \<le> allocation a) p"
    and total: "sum_list (map allocation p) = 100"
    and V: "list_all2 asset_ok p vs"
    and t: "99 / 100 < t"
  shows "\<not> list_ex (deviates t (accumulate vs (Finite 0))) (zip p vs)"
proof
  assume "list_ex (deviates t (accumulate vs (Finite 0))) (zip p vs)"
  then obtain a v where m: "(a, v) \<in> set (zip p vs)" and d: "deviates t (accumulate vs (Finite 0)) (a, v)"
    by (auto simp: list_ex_iff)
  from assets_Finite [OF V] obtain xs where
    vs: "vs = map Finite xs" and W: "list_all2 weight_ok p xs" by blast
  have T: "accumulate vs (Finite 0) = Finite (sum_list xs)" by (simp add: vs accumulate_Finite)
  from m obtain x where v: "v = Finite x" and mx: "(a, x) \<in> set (zip p xs)"
    by (auto simp: vs zip_map2)
  have xm: "x \<in> set xs" using mx by (rule set_zip_rightD)
  have am: "a \<in> set p" using mx by (rule set_zip_leftD)
  have ok: "weight_ok a x" using W mx by (auto simp: list_all2_iff)
  have x0: "0 \<le> x" using ok by (simp add: weight_ok_def)
  have T0: "0 \<le> sum_list xs" by (rule weight_ok_sum_nonneg [OF W])
  have wp0: "list_all (\<lambda>a. 0 \<le> allocation a) p" using wp by (auto simp: list_all_iff)
  show False
  proof (cases "sum_list xs = 0")
    case True
    with weight_ok_sum_zero [OF W True xm] d show False
      by (simp add: deviates_def T v fsub_def)
  next
    case False
    with T0 have Tp: "0 < sum_list xs" by simp
    have "list_all (\<lambda>x. 0 \<le> x) xs" using W by (auto simp: list_all_iff dest: weight_ok_nonneg)
    then have "x \<le> sum_list xs" using xm by (rule member_le_sum_list_real)
    with Tp have s1: "x / sum_list xs \<le> 1" by simp
    have s0: "0 \<le> x / sum_list xs" using x0 Tp by simp
    define w where "w = allocation a / 100"
    define s where "s = x / sum_list xs"
    have s01: "0 \<le> s" "s \<le> 1" using s0 s1 by (simp_all only: s_def)
    from d False have dev: "t \<le> \<bar>w - s\<bar>"
      by (simp add: deviates_def T v fsub_def w_def s_def)
    from weight_range [OF wp total am] consider "allocation a = 0" | "allocation a = 100"
      | "1 \<le> allocation a" "allocation a \<le> 99" by blast
    then show False
    proof cases
      case 1
      with ok have "x = 0" by (simp add: weight_ok_def)
      with 1 dev t show False by (simp add: w_def s_def)
    next
      case 2
      then have "sum_list (map allocation p) \<le> allocation a" by (simp add: total)
      from sum_concentrated [OF W wp0 mx this] Tp have "s = 1" by (simp add: s_def)
      with 2 dev t show False by (simp add: w_def)
    next
      case 3
      then have "1 / 100 \<le> w" "w \<le> 99 / 100" by (simp_all add: w_def)
      with s01 have "\<bar>w - s\<bar> \<le> 99 / 100" by linarith
      with dev t show False by simp
    qed
  qed
qed

lemma threshold_one_unchanged:
  assumes wp: "list_all (\<lambda>a. allocation a = 0 \<or> 1 \<le> allocation a) p"
    and total: "sum_list (map allocation p) = 100"
    and V: "list_all2 asset_ok p vs"
  shows "threshold_rebalance p 1 vs = vs"
  using threshold_no_deviation [OF assms, of 1] by (simp add: threshold_rebalance_def Let_def)

lemma month_step_threshold_one:
  assumes wp: "list_all (\<lambda>a. allocation a = 0 \<or> 1 \<le> allocation a) p"
    and total: "sum_list (map allocation p) = 100"
    and nn: "list_all (list_all (\<lambda>d. 0 \<le> value d)) vals"
    and V: "list_all2 asset_ok p (current_values st)"
  shows "month_step p infl vals monthly_wr THRESHOLD 1 st = month_step p infl vals monthly_wr NONE t st"
proof (cases "apply_returns vals (current_values st) (returns st)")
  case (Inl e)
  then show ?thesis by (simp add: month_step_def)
next
  case (Inr r)
  obtain vs1 cs1 where r: "r = (vs1, cs1)" by (cases r)
  have "list_all2 asset_ok p vs1" using apply_returns_ok [OF V nn] Inr r by simp
  from threshold_one_unchanged [OF wp total this] show ?thesis
    using Inr r by (simp add: month_step_def)
qed

lemma step_threshold_one:
  assumes wp: "list_all (\<lambda>a. allocation a = 0 \<or> 1 \<le> allocation a) p"
    and total: "sum_list (map allocation p) = 100"
    and nn: "list_all (list_all (\<lambda>d. 0 \<le> value d)) vals"
    and V: "list_all2 asset_ok p (current_values st)"
  shows "step p infl vals monthly_wr THRESHOLD 1 e st = step p infl vals monthly_wr NONE t e st"
proof (cases e)
  case (Month y m)
  then show ?thesis using month_step_threshold_one [OF assms] by simp
next
  case (YearEnd y)
  then show ?thesis by (simp add: year_step_def)
qed

lemma run_threshold_one:
  assumes wp: "list_all (\<lambda>a. allocation a = 0 \<or> 1 \<le> allocation a) p"
    and total: "sum_list (map allocation p) = 100"
    and nn: "list_all (list_all (\<lambda>d. 0 \<le> value d)) vals"
  shows "list_all2 asset_ok p (current_values st) \<Longrightarrow>
    fold_err (step p infl vals monthly_wr THRESHOLD 1) evs st =
    fold_err (step p infl vals monthly_wr NONE t) evs st"
proof (induction evs arbitrary: st)
  case Nil
  then show ?case by simp
next
  case (Cons e evs)
  have eq: "step p infl vals monthly_wr THRESHOLD 1 e st = step p infl vals monthly_wr NONE t e st"
    by (rule step_threshold_one [OF wp total nn Cons.prems])
  show ?case
  proof (cases "step p infl vals monthly_wr NONE t e st")
    case (Inl err)
    with eq show ?thesis by simp
  next
    case (Inr st1)
    have wp0: "list_all (\<lambda>a. 0 \<le> allocation a) p" using wp by (auto simp: list_all_iff)
    have "list_all2 asset_ok p (current_values st1)"
      by (rule step_ok [OF wp0 nn Cons.prems Inr])
    from Cons.IH [OF this] show ?thesis using eq Inr by simp
  qed
qed

lemma trial_threshold_one:
  assumes wp: "list_all (\<lambda>a. allocation a = 0 \<or> 1 \<le> allocation a) p"
    and total: "sum_list (map allocation p) = 100"
    and nn: "list_all (list_all (\<lambda>d. 0 \<le> value d)) vals"
  shows "trial p infl vals years wr monthly_wr THRESHOLD 1 cy cm =
         trial p infl vals years wr monthly_wr NONE t cy cm"
proof (cases "trial_init p infl vals wr cy cm")
  case (Inl e)
  then show ?thesis by (simp add: trial_def)
next
  case (Inr st)
  have wp0: "list_all (\<lambda>a. 0 \<le> allocation a) p" using wp by (auto simp: list_all_iff)
  from run_threshold_one [OF wp total nn trial_init_ok [OF wp0 Inr]]
  show ?thesis using Inr by (simp add: trial_def)
qed

text \<open>
  C7 does not hold of the code as it is stated: nothing makes the weights sum to 100 or
  keeps a return factor from being negative. With two assets of weight 100 each, the
  first with return factor 0 and the second with return factor 1/2, the values after the
  first month are 0 and 500: the first asset deviates by \<open>|1 - 0 / 500| = 1\<close>, the test
  \<open>1 \<le> 1\<close> holds and the values are set to 500 and 500, where no rebalancing leaves 0 and
  500. After one year without withdrawals the terminal values are 125/256 and 125/512.
  With weights 60 and 40 and the return factors \<open>- 1\<close> and 3, the values after the first
  month are \<open>- 600\<close> and 1200: the first asset deviates by \<open>|0.6 + 1|\<close> and the values are
  set to 360 and 240.
\<close>

theorem threshold_one_rebalances:
  "trial_init twice_full (series_from 2000 (\<lambda>k. 1) 24)
       [series_from 2000 (\<lambda>k. 0) 24, series_from 2000 (\<lambda>k. 1 / 2) 24] 0 2000 1 =
     Inr \<lparr>current_values = [Finite 1000, Finite 1000], returns = [1, 1], inflation = 1,
          withdrawal = 0\<rparr>
   \<and> apply_returns [series_from 2000 (\<lambda>k. 0) 24, series_from 2000 (\<lambda>k. 1 / 2) 24]
       [Finite 1000, Finite 1000] [1, 1] = Inr ([Finite 0, Finite 500], [2, 2])
   \<and> list_ex (deviates 1 (accumulate [Finite 0, Finite 500] (Finite 0)))
       (zip twice_full [Finite 0, Finite 500])
   \<and> threshold_rebalance twice_full 1 [Finite 0, Finite 500] = [Finite 500, Finite 500]
   \<and> month_step twice_full (series_from 2000 (\<lambda>k. 1) 24)
       [series_from 2000 (\<lambda>k. 0) 24, series_from 2000 (\<lambda>k. 1 / 2) 24] False THRESHOLD 1
       \<lparr>current_values = [Finite 1000, Finite 1000], returns = [1, 1], inflation = 1,
        withdrawal = 0\<rparr> =
     Inr \<lparr>current_values = [Finite 500, Finite 500], returns = [2, 2], inflation = 2,
          withdrawal = 0\<rparr>
   \<and> month_step twice_full (series_from 2000 (\<lambda>k. 1) 24)
       [series_from 2000 (\<lambda>k. 0) 24, series_from 2000 (\<lambda>k. 1 / 2) 24] False NONE 1
       \<lparr>current_values = [Finite 1000, Finite 1000], returns = [1, 1], inflation = 1,
        withdrawal = 0\<rparr> =
     Inr \<lparr>current_values = [Finite 0, Finite 500], returns = [2, 2], inflation = 2,
          withdrawal = 0\<rparr>
   \<and> trial twice_full (series_from 2000 (\<lambda>k. 1) 24)
       [series_from 2000 (\<lambda>k. 0) 24, series_from 2000 (\<lambda>k. 1 / 2) 24]
       1 0 False THRESHOLD 1 2000 1 = Inr (Finite (125 / 256))
   \<and> trial twice_full (series_from 2000 (\<lambda>k. 1) 24)
       [series_from 2000 (\<lambda>k. 0) 24, series_from 2000 (\<lambda>k. 1 / 2) 24]
       1 0 False NONE 1 2000 1 = Inr (Finite (125 / 512))
   \<and> month_step two_assets (series_from 2000 (\<lambda>k. 1) 24)
       [series_from 2000 (\<lambda>k. - 1) 24, series_from 2000 (\<lambda>k. 3) 24] False THRESHOLD 1
       \<lparr>current_values = [Finite 600, Finite 400], returns = [1, 1], inflation = 1,
        withdrawal = 0\<rparr> =
     Inr \<lparr>current_values = [Finite 360, Finite 240], returns = [2, 2], inflation = 2,
          withdrawal = 0\<rparr>
   \<and> month_step two_assets (series_from 2000 (\<lambda>k. 1) 24)
       [series_from 2000 (\<lambda>k. - 1) 24, series_from 2000 (\<lambda>k. 3) 24] False NONE 1
       \<lparr>current_values = [Finite 600, Finite 400], returns = [1, 1], inflation = 1,
        withdrawal = 0\<rparr> =
     Inr \<lparr>current_values = [Finite (- 600), Finite 1200], returns = [2, 2], inflation = 2,
          withdrawal = 0\<rparr>"
proof -
  let ?I = "series_from 2000 (\<lambda>k. 1) 24"
  let ?Z = "series_from 2000 (\<lambda>k. 0) 24"
  let ?H = "series_from 2000 (\<lambda>k. 1 / 2) 24"
  let ?st = "\<lparr>current_values = [Finite 1000, Finite 1000], returns = [1, 1], inflation = 1,
          withdrawal = 0\<rparr>"
  have i: "trial_init twice_full ?I [?Z, ?H] 0 2000 1 = Inr ?st"
    using trial_init_two [of 2000 2000 1 24 _ _ "\<lambda>k. 1" "\<lambda>k. 0" "\<lambda>k. 1 / 2" 0]
    by (simp add: start_value_def twice_full_def)
  have ar: "apply_returns [?Z, ?H] [Finite 1000, Finite 1000] [1, 1] =
      Inr ([Finite 0, Finite 500], [2, 2])"
    by (simp add: vector_at_series_from)
  have d: "list_ex (deviates 1 (accumulate [Finite 0, Finite 500] (Finite 0)))
       (zip twice_full [Finite 0, Finite 500])"
    by (simp add: twice_full_def deviates_def fsub_def)
  have tr: "threshold_rebalance twice_full 1 [Finite 0, Finite 500] = [Finite 500, Finite 500]"
    by (simp add: threshold_rebalance_def Let_def twice_full_def deviates_def fsub_def
        set_to_target_def)
  have m1: "month_step twice_full ?I [?Z, ?H] False THRESHOLD 1 ?st =
     Inr \<lparr>current_values = [Finite 500, Finite 500], returns = [2, 2], inflation = 2,
          withdrawal = 0\<rparr>"
    by (simp add: month_step_def ar tr vector_at_series_from)
  have m2: "month_step twice_full ?I [?Z, ?H] False NONE 1 ?st =
     Inr \<lparr>current_values = [Finite 0, Finite 500], returns = [2, 2], inflation = 2,
          withdrawal = 0\<rparr>"
    by (simp add: month_step_def ar vector_at_series_from)
  have a: "fold_err (step twice_full ?I [?Z, ?H] False THRESHOLD 1) (trial_events 2000 1 (1 * 12)) ?st =
      Inr \<lparr>current_values = [Finite (125 / 512), Finite (125 / 512)], returns = [13, 13],
           inflation = 13, withdrawal = 0\<rparr>"
    unfolding trial_events_one_year
    by (simp add: month_step_def year_step_def twice_full_def vector_at_series_from Let_def
        threshold_rebalance_def deviates_def fsub_def set_to_target_def
        withdraw_def withdraw_value_def fmax_def)
  have b: "fold_err (step twice_full ?I [?Z, ?H] False NONE 1) (trial_events 2000 1 (1 * 12)) ?st =
      Inr \<lparr>current_values = [Finite 0, Finite (125 / 512)], returns = [13, 13],
           inflation = 13, withdrawal = 0\<rparr>"
    unfolding trial_events_one_year
    by (simp add: month_step_def year_step_def twice_full_def vector_at_series_from Let_def
        withdraw_def withdraw_value_def fsub_def fmax_def)
  have t1: "trial twice_full ?I [?Z, ?H] 1 0 False THRESHOLD 1 2000 1 = Inr (Finite (125 / 256))"
    by (simp only: trial_def i a sum.case) simp
  have t2: "trial twice_full ?I [?Z, ?H] 1 0 False NONE 1 2000 1 = Inr (Finite (125 / 512))"
    by (simp only: trial_def i b sum.case) simp
  have n1: "month_step two_assets ?I
       [series_from 2000 (\<lambda>k. - 1) 24, series_from 2000 (\<lambda>k. 3) 24] False THRESHOLD 1
       \<lparr>current_values = [Finite 600, Finite 400], returns = [1, 1], inflation = 1,
        withdrawal = 0\<rparr> =
     Inr \<lparr>current_values = [Finite 360, Finite 240], returns = [2, 2], inflation = 2,
          withdrawal = 0\<rparr>"
    by (simp add: month_step_def two_assets_def vector_at_series_from Let_def
        threshold_rebalance_def deviates_def fsub_def set_to_target_def)
  have n2: "month_step two_assets ?I
       [series_from 2000 (\<lambda>k. - 1) 24, series_from 2000 (\<lambda>k. 3) 24] False NONE 1
       \<lparr>current_values = [Finite 600, Finite 400], returns = [1, 1], inflation = 1,
        withdrawal = 0\<rparr> =
     Inr \<lparr>current_values = [Finite (- 600), Finite 1200], returns = [2, 2], inflation = 2,
          withdrawal = 0\<rparr>"
    by (simp add: month_step_def two_assets_def vector_at_series_from Let_def)
  show ?thesis
    using i ar d tr m1 m2 t1 t2 n1 n2 by (intro conjI)
qed

text \<open>
  C7, with the hypotheses it needs. Let every weight be zero or at least one percent, let
  the weights sum to 100 and let no return factor be negative. Then threshold rebalancing
  with a threshold of 1 gives the simulation of no rebalancing at all; and in every state
  a trial reaches, whatever the drift, the deviation test on the values after the month's
  returns holds for no asset, so the values are left as they are and no fee is deducted.
  No deviation comes near 1: the test fails for every threshold from 0.995 on, a gap that
  the rounding of \<^verbatim>\<open>float\<close> operations, which the model leaves out, does not close.
\<close>

theorem threshold_one_never_rebalances:
  assumes wp: "list_all (\<lambda>a. allocation a = 0 \<or> 1 \<le> allocation a) portfolio"
    and total: "sum_list (map allocation portfolio) = 100"
    and nn: "list_all (list_all (\<lambda>d. 0 \<le> value d)) vals"
  shows "simulation simulations portfolio inflation_data vals years wr start_year end_year
           monthly_wr THRESHOLD 1 =
         simulation simulations portfolio inflation_data vals years wr start_year end_year
           monthly_wr NONE threshold
    \<and> (\<forall>current_year current_month evs st0 st vs cs.
          trial_init portfolio inflation_data vals wr current_year current_month = Inr st0 \<longrightarrow>
          fold_err (step portfolio inflation_data vals monthly_wr THRESHOLD 1) evs st0 = Inr st \<longrightarrow>
          apply_returns vals (current_values st) (returns st) = Inr (vs, cs) \<longrightarrow>
          \<not> list_ex (deviates 1 (accumulate vs (Finite 0))) (zip portfolio vs)
          \<and> threshold_rebalance portfolio 1 vs = vs
          \<and> (\<forall>t. 199 / 200 \<le> t \<longrightarrow>
                \<not> list_ex (deviates t (accumulate vs (Finite 0))) (zip portfolio vs)))"
proof -
  have wp0: "list_all (\<lambda>a. 0 \<le> allocation a) portfolio" using wp by (auto simp: list_all_iff)
  have "record_trial portfolio inflation_data vals years wr monthly_wr THRESHOLD 1 =
        record_trial portfolio inflation_data vals years wr monthly_wr NONE threshold"
    by (intro ext) (simp add: record_trial_def trial_threshold_one [OF wp total nn, where t = threshold])
  then have a: "simulation simulations portfolio inflation_data vals years wr start_year end_year
           monthly_wr THRESHOLD 1 =
         simulation simulations portfolio inflation_data vals years wr start_year end_year
           monthly_wr NONE threshold"
    by (simp add: simulation_def)
  have b: "\<not> list_ex (deviates 1 (accumulate vs (Finite 0))) (zip portfolio vs)
          \<and> threshold_rebalance portfolio 1 vs = vs
          \<and> (\<forall>t. 199 / 200 \<le> t \<longrightarrow>
                \<not> list_ex (deviates t (accumulate vs (Finite 0))) (zip portfolio vs))"
    if i: "trial_init portfolio inflation_data vals wr current_year current_month = Inr st0"
      and r: "fold_err (step portfolio inflation_data vals monthly_wr THRESHOLD 1) evs st0 = Inr st"
      and ar: "apply_returns vals (current_values st) (returns st) = Inr (vs, cs)"
    for current_year current_month evs st0 st vs cs
  proof -
    have V0: "list_all2 asset_ok portfolio (current_values st0)"
      by (rule trial_init_ok [OF wp0 i])
    have "fold_err (step portfolio inflation_data vals monthly_wr NONE 1) evs st0 = Inr st"
      using run_threshold_one [OF wp total nn V0, where t = 1] r by simp
    then have V: "list_all2 asset_ok portfolio (current_values st)"
      by (rule run_ok [OF wp0 nn V0])
    have V1: "list_all2 asset_ok portfolio vs" by (rule apply_returns_ok [OF V nn ar])
    have m: "\<not> list_ex (deviates t (accumulate vs (Finite 0))) (zip portfolio vs)"
      if "199 / 200 \<le> t" for t
    proof -
      from that have "99 / 100 < t" by simp
      then show ?thesis by (rule threshold_no_deviation [OF wp total V1])
    qed
    have "\<not> list_ex (deviates 1 (accumulate vs (Finite 0))) (zip portfolio vs)"
      by (rule m) simp
    moreover have "threshold_rebalance portfolio 1 vs = vs"
      by (rule threshold_one_unchanged [OF wp total V1])
    ultimately show ?thesis using m by blast
  qed
  show ?thesis using a b by blast
qed

theorem threshold_one_never_rebalances_witness:
  "list_all (\<lambda>a. allocation a = 0 \<or> 1 \<le> allocation a) two_assets
   \<and> sum_list (map allocation two_assets) = 100
   \<and> simulation 0 two_assets (series_from 2000 (\<lambda>k. 1) 24)
       [series_from 2000 (\<lambda>k. 1) 24, series_from 2000 (\<lambda>k. 0) 24]
       1 4 2000 2001 True THRESHOLD 1 =
     simulation 0 two_assets (series_from 2000 (\<lambda>k. 1) 24)
       [series_from 2000 (\<lambda>k. 1) 24, series_from 2000 (\<lambda>k. 0) 24]
       1 4 2000 2001 True NONE 0
   \<and> trial_init two_assets (series_from 2000 (\<lambda>k. 1) 24)
       [series_from 2000 (\<lambda>k. 1) 24, series_from 2000 (\<lambda>k. 0) 24] 4 2000 1 =
     Inr \<lparr>current_values = [Finite 600, Finite 400], returns = [1, 1], inflation = 1,
          withdrawal = 40\<rparr>
   \<and> apply_returns [series_from 2000 (\<lambda>k. 1) 24, series_from 2000 (\<lambda>k. 0) 24]
       [Finite 600, Finite 400] [1, 1] = Inr ([Finite 600, Finite 0], [2, 2])
   \<and> set_to_target two_assets (Finite 600) [Finite 600, Finite 0] = [Finite 360, Finite 240]
   \<and> \<not> list_ex (deviates 1 (accumulate [Finite 600, Finite 0] (Finite 0)))
         (zip two_assets [Finite 600, Finite 0])
   \<and> threshold_rebalance two_assets 1 [Finite 600, Finite 0] = [Finite 600, Finite 0]
   \<and> \<not> list_ex (deviates (199 / 200) (accumulate [Finite 600, Finite 0] (Finite 0)))
         (zip two_assets [Finite 600, Finite 0])
   \<and> trial two_assets (series_from 2000 (\<lambda>k. 1) 24)
       [series_from 2000 (\<lambda>k. 1) 24, series_from 2000 (\<lambda>k. 0) 24]
       1 4 True THRESHOLD 1 2000 1 = Inr (Finite 560)"
proof -
  let ?I = "series_from 2000 (\<lambda>k. 1) 24"
  let ?Z = "series_from 2000 (\<lambda>k. 0) 24"
  let ?st = "\<lparr>current_values = [Finite 600, Finite 400], returns = [1, 1], inflation = 1,
          withdrawal = 40\<rparr>"
  have wp: "list_all (\<lambda>a. allocation a = 0 \<or> 1 \<le> allocation a) two_assets"
    by (simp add: two_assets_def)
  have total: "sum_list (map allocation two_assets) = 100" by (simp add: two_assets_def)
  have nn: "list_all (list_all (\<lambda>d. 0 \<le> value d)) [?I, ?Z]"
    by (simp add: series_from_nonneg)
  have i: "trial_init two_assets ?I [?I, ?Z] 4 2000 1 = Inr ?st"
    using trial_init_two [of 2000 2000 1 24 _ _ "\<lambda>k. 1" "\<lambda>k. 1" "\<lambda>k. 0" 4]
    by (simp add: start_value_def two_assets_def)
  have r: "fold_err (step two_assets ?I [?I, ?Z] True THRESHOLD 1) [] ?st = Inr ?st" by simp
  have ar: "apply_returns [?I, ?Z] (current_values ?st) (returns ?st) =
      Inr ([Finite 600, Finite 0], [2, 2])"
    by (simp add: vector_at_series_from)
  have s: "set_to_target two_assets (Finite 600) [Finite 600, Finite 0] = [Finite 360, Finite 240]"
    by (simp add: set_to_target_def two_assets_def)
  have a: "fold_err (step two_assets ?I [?I, ?Z] True NONE 0) (trial_events 2000 1 (1 * 12)) ?st =
      Inr \<lparr>current_values = [Finite 560, Finite 0], returns = [13, 13],
           inflation = 13, withdrawal = 40\<rparr>"
    unfolding trial_events_one_year
    by (simp add: month_step_def year_step_def two_assets_def vector_at_series_from Let_def
        withdraw_def withdraw_value_def fsub_def fmax_def)
  have t0: "trial two_assets ?I [?I, ?Z] 1 4 True NONE 0 2000 1 = Inr (Finite 560)"
    by (simp only: trial_def i a sum.case) simp
  note T = threshold_one_never_rebalances [OF wp total nn, where inflation_data = ?I
      and wr = 4 and monthly_wr = True]
  have sim: "simulation 0 two_assets ?I [?I, ?Z] 1 4 2000 2001 True THRESHOLD 1 =
     simulation 0 two_assets ?I [?I, ?Z] 1 4 2000 2001 True NONE 0"
    using T by blast
  have dev: "\<not> list_ex (deviates 1 (accumulate [Finite 600, Finite 0] (Finite 0)))
         (zip two_assets [Finite 600, Finite 0])
     \<and> threshold_rebalance two_assets 1 [Finite 600, Finite 0] = [Finite 600, Finite 0]"
    using T i r ar by blast
  have "(199 :: real) / 200 \<le> 199 / 200" by simp
  with T i r ar
  have mrg: "\<not> list_ex (deviates (199 / 200) (accumulate [Finite 600, Finite 0] (Finite 0)))
         (zip two_assets [Finite 600, Finite 0])"
    by blast
  have t1: "trial two_assets ?I [?I, ?Z] 1 4 True THRESHOLD 1 2000 1 = Inr (Finite 560)"
    using trial_threshold_one [OF wp total nn, where t = 0] t0 by simp
  show ?thesis
    using wp total sim i ar s dev mrg t1 by simp
qed

section \<open>Properties: year ends and start cursors\<close>

lemma year_end_count_mid_year:
  assumes "1 \<le> years" "2 \<le> cm" "cm \<le> 12"
  shows "length (filter (\<lambda>e. \<not> is_Month e) (trial_events cy cm (years * 12))) = years + 1"
proof -
  have "cm - 1 + years * 12 - 1 = 12 * (years - 1) + (cm + 10)" using assms by simp
  moreover have "(cm + 10) div 12 = 1" using assms by simp
  ultimately have "(cm - 1 + years * 12 - 1) div 12 = years" using assms by simp
  moreover have "size_sub (cm - 1 + years * 12) 1 = cm - 1 + years * 12 - 1" using assms by simp
  ultimately show ?thesis by (simp add: year_end_count trial_end_year_def)
qed

text \<open>
  C1 does not hold of the code. The statements after the inner loop run at the end of
  every calendar year the trial touches and once more at its end. A one-year trial that
  starts in July has two of them, the first after six months, and in annual mode
  withdraws twice: with a rate of 4 percent and flat series it ends at 920, where
  monthly mode ends at 960.
\<close>

theorem annual_withdrawals_mid_year:
  "trial_events 2000 7 (1 * 12) =
     [Month 2000 7, Month 2000 8, Month 2000 9, Month 2000 10, Month 2000 11, Month 2000 12,
      YearEnd 2000,
      Month 2001 1, Month 2001 2, Month 2001 3, Month 2001 4, Month 2001 5, Month 2001 6,
      YearEnd 2001]
   \<and> trial one_asset (series_from 2000 (\<lambda>k. 1) 24) [series_from 2000 (\<lambda>k. 1) 24]
         1 4 False NONE 0 2000 7 = Inr (Finite 920)
   \<and> trial one_asset (series_from 2000 (\<lambda>k. 1) 24) [series_from 2000 (\<lambda>k. 1) 24]
         1 4 True NONE 0 2000 7 = Inr (Finite 960)"
  using trial_events_mid_year annual_trial_july monthly_trial_july by (intro conjI)

text \<open>
  C2 does not hold of the code for a trial that starts in December. The cursors are asked
  for month \<^verbatim>\<open>(12 % 12) + 1 = 1\<close> of the start year itself: on a series that begins in
  January 2000 a trial starting in December 2000 reads from index 0, January 2000, and
  not from index 12, January 2001. A trial starting in November reads from December.
\<close>

theorem december_start_cursor:
  "trial_init one_asset (series_from 2000 real 24) [series_from 2000 real 24] 4 2000 12 =
     Inr \<lparr>current_values = [Finite 1000], returns = [0], inflation = 0, withdrawal = 40\<rparr>
   \<and> vector_at (series_from 2000 real 24) 0 = Inr \<lparr>month = 1, year = 2000, value = 0\<rparr>
   \<and> vector_at (series_from 2000 real 24) 12 = Inr \<lparr>month = 1, year = 2001, value = 12\<rparr>
   \<and> trial_init one_asset (series_from 2000 real 24) [series_from 2000 real 24] 4 2000 11 =
     Inr \<lparr>current_values = [Finite 1000], returns = [11], inflation = 11, withdrawal = 40\<rparr>
   \<and> vector_at (series_from 2000 real 24) 11 = Inr \<lparr>month = 12, year = 2000, value = 11\<rparr>"
  using trial_init_one_asset [of 2000 2000 12 24 real real 4]
    trial_init_one_asset [of 2000 2000 11 24 real real 4]
  by (simp add: start_value_def vector_at_series_from)

end
